theory Spec2Isabelle
  imports Complex_Main "HOL-Library.Multiset" "HOL-Library.AList"
begin

section \<open>JavaScript values used by svg2png-many.js\<close>

text \<open>
  Numbers. A JavaScript number is NaN, an infinity or a finite value. Finite values are
  kept as exact rationals: binary rounding and the sign of zero are not modelled, none of
  the properties below depends on them.
\<close>

datatype jsnum = NaN | PInf | NInf | Fin rat

text \<open>ToBoolean on a number: NaN and zero are falsy.\<close>

fun num_truthy :: "jsnum \<Rightarrow> bool" where
  "num_truthy NaN = False"
| "num_truthy (Fin q) = (q \<noteq> 0)"
| "num_truthy PInf = True"
| "num_truthy NInf = True"

fun jsneg :: "jsnum \<Rightarrow> jsnum" where
  "jsneg NaN = NaN"
| "jsneg PInf = NInf"
| "jsneg NInf = PInf"
| "jsneg (Fin q) = Fin (- q)"

definition signed_inf :: "bool \<Rightarrow> jsnum" where
  "signed_inf negative = (if negative then NInf else PInf)"

fun is_negative :: "jsnum \<Rightarrow> bool" where
  "is_negative NInf = True"
| "is_negative (Fin q) = (q < 0)"
| "is_negative _ = False"

text \<open>The operator \<open>*\<close>: NaN is contagious, infinity times zero is NaN.\<close>

fun jsmul :: "jsnum \<Rightarrow> jsnum \<Rightarrow> jsnum" where
  "jsmul NaN _ = NaN"
| "jsmul _ NaN = NaN"
| "jsmul (Fin a) (Fin b) = Fin (a * b)"
| "jsmul a b =
     (if a = Fin 0 \<or> b = Fin 0 then NaN
      else signed_inf (is_negative a \<noteq> is_negative b))"

text \<open>
  The operator \<open>/\<close>: a non-zero value divided by zero is an infinity, zero by zero and
  infinity by infinity are NaN, a finite value by an infinity is zero.
\<close>

fun jsdiv :: "jsnum \<Rightarrow> jsnum \<Rightarrow> jsnum" where
  "jsdiv NaN _ = NaN"
| "jsdiv _ NaN = NaN"
| "jsdiv (Fin a) (Fin b) =
     (if b = 0 then (if a = 0 then NaN else signed_inf (a < 0)) else Fin (a / b))"
| "jsdiv (Fin a) _ = Fin 0"
| "jsdiv a (Fin b) = signed_inf (is_negative a \<noteq> (b < 0))"
| "jsdiv _ _ = NaN"

text \<open>
  A variable that holds a number, \<open>false\<close>, \<open>undefined\<close> or \<open>null\<close>: \<open>None\<close> stands
  for the three falsy non-numbers, which the code only ever tests for truthiness.
\<close>

type_synonym jsval = "jsnum option"

fun truthy :: "jsval \<Rightarrow> bool" where
  "truthy None = False"
| "truthy (Some x) = num_truthy x"

text \<open>ToNumber: \<open>false\<close> and \<open>null\<close> become 0 (only reached on truthy values).\<close>

fun num_of :: "jsval \<Rightarrow> jsnum" where
  "num_of None = Fin 0"
| "num_of (Some x) = x"

subsection \<open>Strings and numbers\<close>

definition is_space :: "char \<Rightarrow> bool" where
  "is_space c = ((of_char c :: nat) \<in> {9, 10, 11, 12, 13, 32})"

definition is_digit :: "char \<Rightarrow> bool" where
  "is_digit c = (48 \<le> (of_char c :: nat) \<and> (of_char c :: nat) \<le> 57)"

definition digit_val :: "char \<Rightarrow> nat" where
  "digit_val c = of_char c - 48"

definition digits_val :: "string \<Rightarrow> nat" where
  "digits_val ds = foldl (\<lambda>n c. 10 * n + digit_val c) 0 ds"

definition scale10 :: "rat \<Rightarrow> int \<Rightarrow> rat" where
  "scale10 m e = (if 0 \<le> e then m * 10 ^ nat e else m / 10 ^ nat (- e))"

text \<open>The exponent part of a decimal literal; 0 when the text has none that is complete.\<close>

definition parse_exponent :: "string \<Rightarrow> int" where
  "parse_exponent s =
     (case s of
        [] \<Rightarrow> 0
      | e # r \<Rightarrow>
          if e = CHR ''e'' \<or> e = CHR ''E'' then
            (let negative = (case r of [] \<Rightarrow> False | c # _ \<Rightarrow> c = CHR ''-'');
                 signed = (case r of [] \<Rightarrow> False | c # _ \<Rightarrow> c = CHR ''-'' \<or> c = CHR ''+'');
                 ds = takeWhile is_digit (if signed then tl r else r)
             in if ds = [] then 0
                else if negative then - int (digits_val ds) else int (digits_val ds))
          else 0)"

text \<open>
  The longest prefix that is an unsigned decimal literal: \<open>Infinity\<close>, or digits with an
  optional fraction and exponent, or a fraction that starts with the dot.
\<close>

definition parse_unsigned :: "string \<Rightarrow> jsnum" where
  "parse_unsigned s =
     (if take 8 s = ''Infinity'' then PInf
      else
        (let ip = takeWhile is_digit s;
             r1 = dropWhile is_digit s;
             dotted = (case r1 of [] \<Rightarrow> False | c # _ \<Rightarrow> c = CHR ''.'');
             fp = (if dotted then takeWhile is_digit (tl r1) else []);
             r2 = (if dotted then dropWhile is_digit (tl r1) else r1)
         in if ip = [] \<and> fp = [] then NaN
            else Fin (scale10 (of_nat (digits_val (ip @ fp)))
                        (parse_exponent r2 - int (length fp)))))"

text \<open>The global \<open>parseFloat\<close> on a string: leading white space, a sign, a literal.\<close>

definition parseFloat :: "string \<Rightarrow> jsnum" where
  "parseFloat s =
     (case dropWhile is_space s of
        [] \<Rightarrow> NaN
      | c # r \<Rightarrow>
          if c = CHR ''-'' then jsneg (parse_unsigned r)
          else if c = CHR ''+'' then parse_unsigned r
          else parse_unsigned (c # r))"

text \<open>
  Number to string, as \<open>width + "px"\<close> needs it. A finite value is printed with its
  integer digits and, when it has a fraction, the fraction's digits; \<open>frac_digits\<close> stops
  after 1100 digits, more than any binary64 value has.
\<close>

fun nat_digits :: "nat \<Rightarrow> string" where
  "nat_digits n =
     (if n < 10 then [char_of (48 + n)]
      else nat_digits (n div 10) @ [char_of (48 + n mod 10)])"

fun frac_digits :: "nat \<Rightarrow> rat \<Rightarrow> string" where
  "frac_digits 0 f = []"
| "frac_digits (Suc k) f =
     (if f = 0 then []
      else char_of (48 + nat \<lfloor>10 * f\<rfloor>) # frac_digits k (10 * f - of_int \<lfloor>10 * f\<rfloor>))"

definition unsigned_to_string :: "rat \<Rightarrow> string" where
  "unsigned_to_string q =
     (let ip = nat \<lfloor>q\<rfloor>; f = q - of_int \<lfloor>q\<rfloor>
      in nat_digits ip @ (if f = 0 then [] else CHR ''.'' # frac_digits 1100 f))"

fun num_to_string :: "jsnum \<Rightarrow> string" where
  "num_to_string NaN = ''NaN''"
| "num_to_string PInf = ''Infinity''"
| "num_to_string NInf = ''-Infinity''"
| "num_to_string (Fin q) =
     (if q < 0 then CHR ''-'' # unsigned_to_string (- q) else unsigned_to_string q)"

section \<open>Dimension handling inside the page\<close>

datatype error = Error string | TypeError string

text \<open>
  What \<open>page.evaluate\<close> hands back: the function's return value, or the object
  \<open>{error: error}\<close> that the function builds in its \<open>catch\<close> block.
\<close>

datatype 'a evaluated = Returned 'a | ErrorMarker error

text \<open>The typedef \<open>Sizes\<close>: both properties are optional.\<close>

record sizes =
  width :: jsval
  height :: jsval

text \<open>
  \<open>document.documentElement\<close>: its attributes, and \<open>viewBox.animVal\<close> (width and height)
  when the element has a \<open>viewBox\<close> property at all. An SVG root without a viewBox
  attribute has the animated value 0, 0; on a root that is not an SVG element the property
  access throws.
\<close>

record element =
  attributes :: "string \<rightharpoonup> string"
  viewBox :: "(jsnum \<times> jsnum) option"

definition getAttribute :: "element \<Rightarrow> string \<Rightarrow> string option" where
  "getAttribute el name = attributes el name"

definition setAttribute :: "element \<Rightarrow> string \<Rightarrow> string \<Rightarrow> element" where
  "setAttribute el name v = el\<lparr>attributes := (attributes el)(name \<mapsto> v)\<rparr>"

definition removeAttribute :: "element \<Rightarrow> string \<Rightarrow> element" where
  "removeAttribute el name = el\<lparr>attributes := (attributes el)(name := None)\<rparr>"

text \<open>The test \<open>/%\s*$/\<close>: a percent sign with nothing but white space after it.\<close>

definition is_percent :: "string \<Rightarrow> bool" where
  "is_percent s = (case dropWhile is_space (rev s) of [] \<Rightarrow> False | c # _ \<Rightarrow> c = CHR ''%'')"

text \<open>\<open>parseFloat(el.getAttribute(name))\<close>: a missing attribute is \<open>null\<close>, which is no number.\<close>

definition parseFloat_attr :: "string option \<Rightarrow> jsnum" where
  "parseFloat_attr a = (case a of None \<Rightarrow> NaN | Some s \<Rightarrow> parseFloat s)"

text \<open>\<open>el.getAttribute(name) || ""\<close>\<close>

definition or_empty :: "string option \<Rightarrow> string" where
  "or_empty a = (case a of None \<Rightarrow> [] | Some s \<Rightarrow> s)"

definition getSVGDimensions :: "element \<Rightarrow> sizes option evaluated" where
  "getSVGDimensions el =
     (let widthIsPercent = is_percent (or_empty (getAttribute el ''width''));
          heightIsPercent = is_percent (or_empty (getAttribute el ''height''));
          w = (if widthIsPercent then None else Some (parseFloat_attr (getAttribute el ''width'')));
          h = (if heightIsPercent then None else Some (parseFloat_attr (getAttribute el ''height'')))
      in if truthy w \<and> truthy h then Returned (Some \<lparr>width = w, height = h\<rparr>)
         else
           (case viewBox el of
              None \<Rightarrow> ErrorMarker (TypeError ''viewBox'')
            | Some (viewBoxWidth, viewBoxHeight) \<Rightarrow>
                if truthy w \<and> num_truthy viewBoxHeight then
                  Returned (Some \<lparr>width = w,
                    height = Some (jsdiv (jsmul (num_of w) viewBoxHeight) viewBoxWidth)\<rparr>)
                else if truthy h \<and> num_truthy viewBoxWidth then
                  Returned (Some \<lparr>width = Some (jsdiv (jsmul (num_of h) viewBoxWidth) viewBoxHeight),
                    height = h\<rparr>)
                else Returned None))"

text \<open>
  The argument is \<open>None\<close> when the caller passes \<open>null\<close>: reading \<open>sizes.height\<close> throws
  then, before the document is touched, and the \<open>catch\<close> block returns the marker.
\<close>

definition setSVGDimensions :: "sizes option \<Rightarrow> element \<Rightarrow> sizes evaluated \<times> element" where
  "setSVGDimensions arg el =
     (case arg of
        None \<Rightarrow> (ErrorMarker (TypeError ''sizes''), el)
      | Some sz \<Rightarrow>
          (let h = height sz; w = width sz
           in if \<not> truthy w \<and> \<not> truthy h then (Returned sz, el)
              else
                (let el1 = (if truthy w
                            then setAttribute el ''width'' (num_to_string (num_of w) @ ''px'')
                            else removeAttribute el ''width'');
                     el2 = (if truthy h
                            then setAttribute el1 ''height'' (num_to_string (num_of h) @ ''px'')
                            else removeAttribute el1 ''height'')
                 in (Returned sz, el2))))"

text \<open>\<open>checkEvalError\<close>: a marker becomes a rejection, anything else passes through.\<close>

definition checkEvalError :: "'a evaluated \<Rightarrow> error + 'a" where
  "checkEvalError result = (case result of ErrorMarker e \<Rightarrow> Inl e | Returned v \<Rightarrow> Inr v)"

subsection \<open>The intrinsic size as the specification words it\<close>

text \<open>
  A dimension is declared when the attribute's text is no percentage and reads, with
  \<open>parseFloat\<close>, as a number other than NaN and 0.
\<close>

definition spec_declared :: "element \<Rightarrow> string \<Rightarrow> jsnum option" where
  "spec_declared el name =
     (case attributes el name of
        None \<Rightarrow> None
      | Some s \<Rightarrow>
          if is_percent s then None
          else if num_truthy (parseFloat s) then Some (parseFloat s) else None)"

definition spec_getIntrinsicSize :: "element \<Rightarrow> jsnum \<Rightarrow> jsnum \<Rightarrow> sizes option" where
  "spec_getIntrinsicSize el viewBoxWidth viewBoxHeight =
     (case (spec_declared el ''width'', spec_declared el ''height'') of
        (Some w, Some h) \<Rightarrow> Some \<lparr>width = Some w, height = Some h\<rparr>
      | (Some w, None) \<Rightarrow>
          if num_truthy viewBoxHeight
          then Some \<lparr>width = Some w, height = Some (jsdiv (jsmul w viewBoxHeight) viewBoxWidth)\<rparr>
          else None
      | (None, Some h) \<Rightarrow>
          if num_truthy viewBoxWidth
          then Some \<lparr>width = Some (jsdiv (jsmul h viewBoxWidth) viewBoxHeight), height = Some h\<rparr>
          else None
      | (None, None) \<Rightarrow> None)"

text \<open>The values of the variables \<open>width\<close> and \<open>height\<close> of \<open>getSVGDimensions\<close>.\<close>

definition js_declared :: "element \<Rightarrow> string \<Rightarrow> jsval" where
  "js_declared el name =
     (if is_percent (or_empty (getAttribute el name)) then None
      else Some (parseFloat_attr (getAttribute el name)))"

text \<open>
  Two documents: one with a percentage for its width, one with a width of zero; both are
  10 wide and 20 high in their viewBox and declare a height of 50.
\<close>

definition ex_svg :: element where
  "ex_svg = \<lparr>attributes = [''width'' \<mapsto> ''100%'', ''height'' \<mapsto> ''50''],
             viewBox = Some (Fin 10, Fin 20)\<rparr>"

definition ex_zero :: element where
  "ex_zero = \<lparr>attributes = [''width'' \<mapsto> ''0'', ''height'' \<mapsto> ''50''],
              viewBox = Some (Fin 10, Fin 20)\<rparr>"

section \<open>The conversion of one file\<close>

text \<open>\<open>new Buffer(imageBase64, 'base64')\<close>: the bytes that the text encodes.\<close>

datatype buffer = Buffer string

text \<open>
  The answers of PhantomJS and of the file system to one job: whether the page is created,
  the file's bytes in base64 or the read error, which of the two rejections comes first
  when both fail, the status of \<open>page.open\<close> or its rejection, the loaded document, and
  the outcomes of setting the viewport and of rendering.
\<close>

record job_env =
  createPage :: "error option"
  file_base64 :: "error + string"
  page_fails_first :: bool
  page_open :: "string \<Rightarrow> error + string"
  document :: element
  set_viewportSize :: "sizes \<Rightarrow> error option"
  renderBase64 :: "element \<Rightarrow> sizes \<Rightarrow> error + string"

text \<open>What \<open>convert\<close> asks of the page and of the file system, in order.\<close>

datatype action =
    CreatePage
  | ReadFile string
  | PageOpen string
  | Evaluate_setSVGDimensions
  | Evaluate_getSVGDimensions
  | SetViewportSize sizes
  | RenderBase64
  | PageClose

definition dataPrefix :: string where
  "dataPrefix = ''data:image/svg+xml;base64,''"

definition fileToBase64 :: "job_env \<Rightarrow> error + string" where
  "fileToBase64 env =
     (case file_base64 env of Inl e \<Rightarrow> Inl e | Inr base64Data \<Rightarrow> Inr (dataPrefix @ base64Data))"

text \<open>
  Lines 168 to 174: set the requested size, read the size back, set what was read, make
  it the viewport. Every evaluation is followed by \<open>checkEvalError\<close>. The result is the
  rejection, if any, the viewport that was applied, and the document as it is left.
\<close>

definition resolve_dimensions ::
  "job_env \<Rightarrow> sizes \<Rightarrow> action list \<times> (error + sizes) \<times> element" where
  "resolve_dimensions env sz =
     (case setSVGDimensions (Some sz) (document env) of (r1, d1) \<Rightarrow>
        (case checkEvalError r1 of
           Inl e \<Rightarrow> ([Evaluate_setSVGDimensions], Inl e, d1)
         | Inr _ \<Rightarrow>
             (case checkEvalError (getSVGDimensions d1) of
                Inl e \<Rightarrow> ([Evaluate_setSVGDimensions, Evaluate_getSVGDimensions], Inl e, d1)
              | Inr dimensions \<Rightarrow>
                  (case setSVGDimensions dimensions d1 of (r3, d3) \<Rightarrow>
                     (case checkEvalError r3 of
                        Inl e \<Rightarrow>
                          ([Evaluate_setSVGDimensions, Evaluate_getSVGDimensions,
                            Evaluate_setSVGDimensions], Inl e, d3)
                      | Inr applied \<Rightarrow>
                          ([Evaluate_setSVGDimensions, Evaluate_getSVGDimensions,
                            Evaluate_setSVGDimensions, SetViewportSize applied],
                           (case set_viewportSize env applied of
                              Some e \<Rightarrow> Inl e | None \<Rightarrow> Inr applied),
                           d3))))))"

text \<open>
  The chain from \<open>page.open\<close> to the decoded image (lines 155 to 180), before the two
  final handlers.
\<close>

definition page_steps ::
  "job_env \<Rightarrow> string \<Rightarrow> string \<Rightarrow> sizes \<Rightarrow> action list \<times> (error + buffer)" where
  "page_steps env srcPath pageContent sz =
     (case page_open env pageContent of
        Inl e \<Rightarrow> ([PageOpen pageContent], Inl e)
      | Inr status \<Rightarrow>
          if status \<noteq> ''success'' then
            ([PageOpen pageContent],
             Inl (Error (''File '' @ srcPath @ '' has been opened with status '' @ status)))
          else
            (case resolve_dimensions env sz of (tr, res, doc) \<Rightarrow>
               (case res of
                  Inl e \<Rightarrow> (PageOpen pageContent # tr, Inl e)
                | Inr applied \<Rightarrow>
                    (case renderBase64 env doc applied of
                       Inl e \<Rightarrow> (PageOpen pageContent # tr @ [RenderBase64], Inl e)
                     | Inr imageBase64 \<Rightarrow>
                         (PageOpen pageContent # tr @ [RenderBase64],
                          Inr (Buffer imageBase64))))))"

text \<open>
  \<open>convert\<close>: \<open>Promise.all\<close> starts both the page creation and the file read. Its
  callback, which defines \<open>closePage\<close> and attaches the two final handlers, runs only
  when both succeed; when one fails the promise is rejected with the first rejection.
\<close>

definition convert ::
  "job_env \<Rightarrow> string \<Rightarrow> sizes \<Rightarrow> action list \<times> (error + buffer)" where
  "convert env srcPath sz =
     (case (createPage env, fileToBase64 env) of
        (Some e1, Inl e2) \<Rightarrow>
          ([CreatePage, ReadFile srcPath], Inl (if page_fails_first env then e1 else e2))
      | (Some e1, Inr _) \<Rightarrow> ([CreatePage, ReadFile srcPath], Inl e1)
      | (None, Inl e2) \<Rightarrow> ([CreatePage, ReadFile srcPath], Inl e2)
      | (None, Inr pageContent) \<Rightarrow>
          (case page_steps env srcPath pageContent sz of (tr, res) \<Rightarrow>
             ([CreatePage, ReadFile srcPath] @ tr @ [PageClose], res)))"

text \<open>\<open>saveBuffer\<close>: after \<open>reject(error)\<close> the call of \<open>resolve\<close> has no effect.\<close>

definition saveBuffer ::
  "(string \<Rightarrow> buffer \<Rightarrow> error option) \<Rightarrow> string \<Rightarrow> buffer \<Rightarrow> error + string" where
  "saveBuffer writeFile dstPath buf =
     (case writeFile dstPath buf of Some e \<Rightarrow> Inl e | None \<Rightarrow> Inr dstPath)"

text \<open>
  Three jobs on the first document above: the page opens with the status \<open>fail\<close>; the
  file cannot be read; everything succeeds.
\<close>

definition ex_env :: job_env where
  "ex_env = \<lparr>createPage = None, file_base64 = Inr ''PHN2Zy8+'',
             page_fails_first = False, page_open = (\<lambda>content. Inr ''fail''),
             document = ex_svg, set_viewportSize = (\<lambda>v. None),
             renderBase64 = (\<lambda>doc v. Inr ''iVBORw0K'')\<rparr>"

definition ex_env_unreadable :: job_env where
  "ex_env_unreadable = ex_env\<lparr>file_base64 := Inl (Error ''ENOENT'')\<rparr>"

definition ex_env_ok :: job_env where
  "ex_env_ok = ex_env\<lparr>page_open := (\<lambda>content. Inr ''success'')\<rparr>"

section \<open>The pool of workers\<close>

text \<open>
  The file map is the object's list of properties: source path and destination path, in
  the order of \<open>Object.keys\<close>. The keys of an object are distinct.
\<close>

type_synonym file_map = "(string \<times> string) list"

text \<open>
  One worker, \<open>convert(...).then(buffer => saveBuffer(fileMap[srcPath], buffer))\<close>: its
  rejection, or the destination path together with the bytes written there.
\<close>

definition worker ::
  "(string \<Rightarrow> job_env) \<Rightarrow> (string \<Rightarrow> buffer \<Rightarrow> error option) \<Rightarrow> file_map \<Rightarrow> sizes \<Rightarrow>
   string \<Rightarrow> error + string \<times> buffer" where
  "worker env writeFile fileMap sz srcPath =
     (case snd (convert (env srcPath) srcPath sz) of
        Inl e \<Rightarrow> Inl e
      | Inr buf \<Rightarrow>
          (case map_of fileMap srcPath of
             None \<Rightarrow> Inl (TypeError ''path'')
           | Some dstPath \<Rightarrow>
               (case saveBuffer writeFile dstPath buf of
                  Inl e \<Rightarrow> Inl e
                | Inr d \<Rightarrow> Inr (d, buf))))"

text \<open>The state of the promise that \<open>convertMany\<close> returns, once it is settled.\<close>

datatype settlement = Resolved "string list" | Rejected "error list"

text \<open>
  The variables of \<open>convertMany\<close>: the array \<open>restWorkers\<close>, the workers that were started
  and have not settled, the arrays \<open>results\<close> and \<open>errors\<close>, the number of calls of
  \<open>processNext\<close> that are queued (one for every promise of \<open>startWorker\<close> that is
  fulfilled), the state of the returned promise, the files written so far, and the
  sources whose workers have settled.
\<close>

record pool =
  restWorkers :: "string list"
  running :: "string list"
  results :: "string list"
  errors :: "error list"
  queued :: nat
  batch :: "settlement option"
  written :: "(string \<times> buffer) list"
  settled :: "string list"

text \<open>\<open>resolveAll\<close> and \<open>rejectAll\<close>: a promise keeps its first settlement.\<close>

definition settle :: "settlement \<Rightarrow> pool \<Rightarrow> pool" where
  "settle r p = (if batch p = None then p\<lparr>batch := Some r\<rparr> else p)"

text \<open>\<open>startWorker\<close>: the worker is called at once.\<close>

definition startWorker :: "string \<Rightarrow> pool \<Rightarrow> pool" where
  "startWorker w p = p\<lparr>running := running p @ [w]\<rparr>"

definition processNext :: "nat \<Rightarrow> pool \<Rightarrow> pool" where
  "processNext njobs p =
     (if length (restWorkers p) > 0 then
        startWorker (last (restWorkers p)) (p\<lparr>restWorkers := butlast (restWorkers p)\<rparr>)
      else if length (errors p) + length (results p) \<ge> njobs then
        (if length (errors p) > 0 then settle (Rejected (errors p)) p
         else settle (Resolved (results p)) p)
      else p)"

text \<open>
  The body of the executor: \<open>splice(0, poolCapacity)\<close> removes the first workers, as many
  as the capacity (no fewer than none, no more than all), and each of them is started.
\<close>

definition convertMany :: "file_map \<Rightarrow> int \<Rightarrow> pool" where
  "convertMany fileMap pages =
     (let keys = map fst fileMap
      in \<lparr>restWorkers = drop (nat pages) keys, running = take (nat pages) keys,
          results = [], errors = [], queued = 0, batch = None, written = [], settled = []\<rparr>)"

text \<open>
  What happens after the executor has returned: a worker that runs settles, which pushes
  its value to \<open>results\<close> or its error to \<open>errors\<close> and queues \<open>processNext\<close>; or a
  queued \<open>processNext\<close> runs. An event that cannot happen in a state has no successor.
\<close>

datatype event = WorkerSettles string | RunProcessNext

definition step ::
  "(string \<Rightarrow> error + string \<times> buffer) \<Rightarrow> nat \<Rightarrow> event \<Rightarrow> pool \<Rightarrow> pool option" where
  "step work njobs ev p =
     (case ev of
        WorkerSettles w \<Rightarrow>
          if w \<in> set (running p) then
            (case work w of
               Inl error \<Rightarrow>
                 Some (p\<lparr>running := remove1 w (running p), errors := errors p @ [error],
                         queued := Suc (queued p), settled := settled p @ [w]\<rparr>)
             | Inr (dstPath, buf) \<Rightarrow>
                 Some (p\<lparr>running := remove1 w (running p), results := results p @ [dstPath],
                         queued := Suc (queued p), written := written p @ [(dstPath, buf)],
                         settled := settled p @ [w]\<rparr>))
          else None
      | RunProcessNext \<Rightarrow>
          if queued p = 0 then None
          else Some (processNext njobs (p\<lparr>queued := queued p - 1\<rparr>)))"

fun run ::
  "(string \<Rightarrow> error + string \<times> buffer) \<Rightarrow> nat \<Rightarrow> event list \<Rightarrow> pool \<Rightarrow> pool option" where
  "run work njobs [] p = Some p"
| "run work njobs (ev # evs) p =
     (case step work njobs ev p of None \<Rightarrow> None | Some p' \<Rightarrow> run work njobs evs p')"

text \<open>A batch: the executor, then the events of a schedule.\<close>

definition batch_run ::
  "(string \<Rightarrow> error + string \<times> buffer) \<Rightarrow> file_map \<Rightarrow> int \<Rightarrow> event list \<Rightarrow> pool option" where
  "batch_run work fileMap pages evs =
     run work (length (map fst fileMap)) evs (convertMany fileMap pages)"

text \<open>Nothing more can happen: no worker runs and no call of \<open>processNext\<close> is queued.\<close>

definition quiescent :: "pool \<Rightarrow> bool" where
  "quiescent p = (running p = [] \<and> queued p = 0)"

text \<open>The errors and the destinations that the workers of a list of sources end with.\<close>

definition failures_of :: "(string \<Rightarrow> error + string \<times> buffer) \<Rightarrow> string list \<Rightarrow> error list" where
  "failures_of work srcs = concat (map (\<lambda>s. case work s of Inl e \<Rightarrow> [e] | Inr _ \<Rightarrow> []) srcs)"

definition successes_of :: "(string \<Rightarrow> error + string \<times> buffer) \<Rightarrow> string list \<Rightarrow> string list" where
  "successes_of work srcs =
     concat (map (\<lambda>s. case work s of Inl _ \<Rightarrow> [] | Inr (d, _) \<Rightarrow> [d]) srcs)"

text \<open>
  What holds in every state of a batch: every worker is waiting, running or settled; the
  workers that run and the queued calls fit the capacity, and fill it while workers wait;
  a pending promise has a worker or a queued call ahead of it; a settled promise has no
  worker left and carries the errors, if any, else the results; the outcomes are those of
  the sources; each result is a file written; every source waits, runs or has settled.
\<close>

definition pool_inv ::
  "(string \<Rightarrow> error + string \<times> buffer) \<Rightarrow> string list \<Rightarrow> nat \<Rightarrow> pool \<Rightarrow> bool" where
  "pool_inv work keys cap p =
     (length (restWorkers p) + length (running p) + length (results p) + length (errors p)
        = length keys \<and>
      length (running p) + queued p \<le> min cap (length keys) \<and>
      (restWorkers p \<noteq> [] \<longrightarrow> length (running p) + queued p = min cap (length keys)) \<and>
      (batch p = None \<and> 0 < min cap (length keys) \<longrightarrow> 0 < length (running p) + queued p) \<and>
      (\<forall>r. batch p = Some r \<longrightarrow>
           restWorkers p = [] \<and> running p = [] \<and>
           r = (if errors p \<noteq> [] then Rejected (errors p) else Resolved (results p))) \<and>
      mset (map work (restWorkers p)) + mset (map work (running p)) +
        mset (map Inl (errors p)) + mset (map Inr (written p)) = mset (map work keys) \<and>
      map fst (written p) = results p \<and>
      mset (restWorkers p) + mset (running p) + mset (settled p) = mset keys)"

text \<open>A number that every event makes smaller: no batch goes on for ever.\<close>

definition pool_measure :: "pool \<Rightarrow> nat" where
  "pool_measure p = 3 * length (restWorkers p) + 2 * length (running p) + queued p"

text \<open>The errors and the values among a multiset of outcomes.\<close>

definition lefts :: "('a + 'b) multiset \<Rightarrow> 'a multiset" where
  "lefts M = image_mset projl (filter_mset isl M)"
definition rights :: "('a + 'b) multiset \<Rightarrow> 'b multiset" where
  "rights M = image_mset projr (filter_mset (\<lambda>x. \<not> isl x) M)"

text \<open>
  A batch of two files with one slot: the first file cannot be converted, the second is
  converted and written.
\<close>

definition ex_work :: "string \<Rightarrow> error + string \<times> buffer" where
  "ex_work src =
     (if src = ''in/a.svg'' then Inl (Error ''File in/a.svg has been opened with status fail'')
      else Inr (''out/b.png'', Buffer ''iVBORw0K''))"

definition ex_fileMap :: file_map where
  "ex_fileMap = [(''in/a.svg'', ''out/a.png''), (''in/b.svg'', ''out/b.png'')]"

definition ex_schedule :: "event list" where
  "ex_schedule =
     [WorkerSettles ''in/a.svg'', RunProcessNext, WorkerSettles ''in/b.svg'', RunProcessNext]"

definition ex_final :: pool where
  "ex_final =
     \<lparr>restWorkers = [], running = [], results = [''out/b.png''],
      errors = [Error ''File in/a.svg has been opened with status fail''], queued = 0,
      batch = Some (Rejected [Error ''File in/a.svg has been opened with status fail'']),
      written = [(''out/b.png'', Buffer ''iVBORw0K'')],
      settled = [''in/a.svg'', ''in/b.svg'']\<rparr>"

text \<open>
  A page that \<open>convert\<close> has had created and does not close stays open in PhantomJS when the
  job has settled. The pages left open by the jobs that have settled are open at once.
\<close>

definition leaves_page_open :: "job_env \<Rightarrow> string \<Rightarrow> sizes \<Rightarrow> bool" where
  "leaves_page_open env srcPath sz =
     (createPage env = None \<and> PageClose \<notin> set (fst (convert env srcPath sz)))"

definition leaked_pages :: "(string \<Rightarrow> job_env) \<Rightarrow> sizes \<Rightarrow> pool \<Rightarrow> string list" where
  "leaked_pages envs sz p =
     filter (\<lambda>srcPath. leaves_page_open (envs srcPath) srcPath sz) (settled p)"

text \<open>The batch of two files again, with one slot, when neither file can be read.\<close>

definition ex_unreadable_work :: "string \<Rightarrow> error + string \<times> buffer" where
  "ex_unreadable_work =
     worker (\<lambda>srcPath. ex_env_unreadable) (\<lambda>dstPath buf. None) ex_fileMap
       \<lparr>width = None, height = None\<rparr>"

definition ex_unreadable_final :: pool where
  "ex_unreadable_final =
     \<lparr>restWorkers = [], running = [], results = [],
      errors = [Error ''ENOENT'', Error ''ENOENT''], queued = 0,
      batch = Some (Rejected [Error ''ENOENT'', Error ''ENOENT'']),
      written = [], settled = [''in/a.svg'', ''in/b.svg'']\<rparr>"

section \<open>The directory entry point\<close>

definition PARALLEL_PAGES :: int where
  "PARALLEL_PAGES = 20"

text \<open>\<open>SVG_REGEX\<close>, \<open>/\.svg$/i\<close>: the name ends with a dot and the letters s, v, g in either case.\<close>

definition SVG_REGEX_test :: "string \<Rightarrow> bool" where
  "SVG_REGEX_test file =
     (case rev file of
        g # v # s # d # _ \<Rightarrow>
          d = CHR ''.'' \<and> (s = CHR ''s'' \<or> s = CHR ''S'') \<and> (v = CHR ''v'' \<or> v = CHR ''V'') \<and>
          (g = CHR ''g'' \<or> g = CHR ''G'')
      | _ \<Rightarrow> False)"

text \<open>
  \<open>path.parse(file).name\<close> for a name that does not end with a separator: the part
  after the last separator, without its extension. The extension starts at the last dot,
  unless there is no dot, the last dot is the first character, or the name is two dots.
\<close>

definition basename :: "string \<Rightarrow> string" where
  "basename file = rev (takeWhile (\<lambda>c. c \<noteq> CHR ''/'') (rev file))"

definition path_parse_name :: "string \<Rightarrow> string" where
  "path_parse_name file =
     (let base = basename file;
          ext = rev (takeWhile (\<lambda>c. c \<noteq> CHR ''.'') (rev base))
      in if CHR ''.'' \<notin> set base \<or> length ext + 1 = length base \<or> base = ''..'' then base
         else take (length base - (length ext + 1)) base)"

text \<open>
  The call that \<open>svg2PngDir\<close> ends with, \<open>svg2PngFiles(fileMap, size, pages)\<close>, as its
  three arguments.
\<close>

record svg2PngFiles_call =
  arg_fileMap :: file_map
  arg_size :: sizes
  arg_pages :: int

text \<open>
  \<open>fileMap[srcFile] = dstFile\<close>: a new key goes to the end, an old key keeps its place
  and takes the new value. \<open>path.join\<close> is the one of Node, taken as a parameter.
\<close>

definition build_fileMap ::
  "(string \<Rightarrow> string \<Rightarrow> string) \<Rightarrow> string \<Rightarrow> string \<Rightarrow> string list \<Rightarrow> file_map" where
  "build_fileMap join srcDir dstDir files =
     foldl (\<lambda>fileMap file.
              AList.update (join srcDir file) (join dstDir (path_parse_name file @ ''.png'')) fileMap)
       [] files"

definition svg2PngDir ::
  "(string \<Rightarrow> string \<Rightarrow> string) \<Rightarrow> (error + string list) \<Rightarrow> string \<Rightarrow> string \<Rightarrow>
   sizes option \<Rightarrow> int option \<Rightarrow> error + svg2PngFiles_call" where
  "svg2PngDir join readdir srcDir dstDir size_arg pages_arg =
     (let sz = (case size_arg of None \<Rightarrow> \<lparr>width = None, height = None\<rparr> | Some s \<Rightarrow> s);
          pages = (case pages_arg of None \<Rightarrow> PARALLEL_PAGES | Some n \<Rightarrow> n)
      in case readdir of
           Inl error \<Rightarrow> Inl error
         | Inr files \<Rightarrow>
             Inr \<lparr>arg_fileMap = build_fileMap join srcDir dstDir (filter SVG_REGEX_test files),
                  arg_size = sz, arg_pages = pages\<rparr>)"

text \<open>A directory listing, and a join that puts a separator between its two arguments.\<close>

definition ex_join :: "string \<Rightarrow> string \<Rightarrow> string" where
  "ex_join dir file = dir @ ''/'' @ file"

definition ex_files :: "string list" where
  "ex_files = [''a.svg'', ''notes.txt'', ''B.SVG'', ''svg'', ''c.svg.bak'']"


section \<open>Properties of the dimension handling\<close>

declare nat_digits.simps [simp del]

lemma is_percent_Nil [simp]: "\<not> is_percent []"
  by (simp add: is_percent_def)

lemma js_declared_None: "spec_declared el n = None \<Longrightarrow> \<not> truthy (js_declared el n)"
  by (auto simp: js_declared_def spec_declared_def getAttribute_def or_empty_def parseFloat_attr_def
      split: option.splits if_splits)

lemma js_declared_Some:
  "spec_declared el n = Some x \<Longrightarrow> js_declared el n = Some x \<and> num_truthy x"
  by (auto simp: js_declared_def spec_declared_def getAttribute_def or_empty_def parseFloat_attr_def
      split: option.splits if_splits)

lemma getSVGDimensions_unfold:
  "getSVGDimensions el =
     (let w = js_declared el ''width''; h = js_declared el ''height''
      in if truthy w \<and> truthy h then Returned (Some \<lparr>width = w, height = h\<rparr>)
         else
           (case viewBox el of
              None \<Rightarrow> ErrorMarker (TypeError ''viewBox'')
            | Some (viewBoxWidth, viewBoxHeight) \<Rightarrow>
                if truthy w \<and> num_truthy viewBoxHeight then
                  Returned (Some \<lparr>width = w,
                    height = Some (jsdiv (jsmul (num_of w) viewBoxHeight) viewBoxWidth)\<rparr>)
                else if truthy h \<and> num_truthy viewBoxWidth then
                  Returned (Some \<lparr>width = Some (jsdiv (jsmul (num_of h) viewBoxWidth) viewBoxHeight),
                    height = h\<rparr>)
                else Returned None))"
  by (simp add: getSVGDimensions_def js_declared_def)

lemma getSVGDimensions_spec:
  assumes "viewBox el = Some (vw, vh)"
  shows "getSVGDimensions el = Returned (spec_getIntrinsicSize el vw vh)"
proof (cases "spec_declared el ''width''")
  case wN: None
  show ?thesis
  proof (cases "spec_declared el ''height''")
    case None
    with wN assms show ?thesis
      by (simp add: getSVGDimensions_unfold spec_getIntrinsicSize_def js_declared_None)
  next
    case (Some h)
    with wN assms show ?thesis
      by (simp add: getSVGDimensions_unfold spec_getIntrinsicSize_def js_declared_None
          js_declared_Some)
  qed
next
  case wS: (Some w)
  show ?thesis
  proof (cases "spec_declared el ''height''")
    case None
    with wS assms show ?thesis
      by (simp add: getSVGDimensions_unfold spec_getIntrinsicSize_def js_declared_None
          js_declared_Some)
  next
    case (Some h)
    with wS assms show ?thesis
      by (simp add: getSVGDimensions_unfold spec_getIntrinsicSize_def js_declared_Some)
  qed
qed

lemma getSVGDimensions_no_viewBox:
  assumes "viewBox el = None"
  shows "getSVGDimensions el =
     (case (spec_declared el ''width'', spec_declared el ''height'') of
        (Some w, Some h) \<Rightarrow> Returned (Some \<lparr>width = Some w, height = Some h\<rparr>)
      | _ \<Rightarrow> ErrorMarker (TypeError ''viewBox''))"
proof (cases "spec_declared el ''width''")
  case None
  with assms show ?thesis
    by (simp add: getSVGDimensions_unfold js_declared_None)
next
  case wS: (Some w)
  show ?thesis
  proof (cases "spec_declared el ''height''")
    case None
    with wS assms show ?thesis
      by (simp add: getSVGDimensions_unfold js_declared_None)
  next
    case (Some h)
    with wS assms show ?thesis
      by (simp add: getSVGDimensions_unfold js_declared_Some)
  qed
qed

lemma last_percent: "s \<noteq> [] \<Longrightarrow> last s = CHR ''%'' \<Longrightarrow> is_percent s"
  by (cases s rule: rev_cases) (auto simp: is_percent_def is_space_def)

lemma js_declared_remove_other:
  "m \<noteq> n \<Longrightarrow> js_declared (removeAttribute el n) m = js_declared el m"
  by (simp add: js_declared_def removeAttribute_def getAttribute_def)

lemma js_declared_remove_same: "\<not> truthy (js_declared (removeAttribute el n) n)"
  by (simp add: js_declared_def removeAttribute_def getAttribute_def or_empty_def
      parseFloat_attr_def)

lemma js_declared_falsy:
  "attributes el n = Some s \<Longrightarrow> is_percent s \<or> \<not> num_truthy (parseFloat s) \<Longrightarrow>
   \<not> truthy (js_declared el n)"
  by (auto simp: js_declared_def getAttribute_def or_empty_def parseFloat_attr_def)

lemma viewBox_removeAttribute [simp]: "viewBox (removeAttribute el n) = viewBox el"
  by (simp add: removeAttribute_def)

lemma declared_falsy_as_absent:
  assumes "attributes el n = Some s" "is_percent s \<or> \<not> num_truthy (parseFloat s)"
    "n = ''width'' \<or> n = ''height''"
  shows "getSVGDimensions (removeAttribute el n) = getSVGDimensions el"
proof -
  have a: "\<not> truthy (js_declared el n)" using assms js_declared_falsy by blast
  have b: "\<not> truthy (js_declared (removeAttribute el n) n)" by (rule js_declared_remove_same)
  from assms(3) show ?thesis
  proof
    assume n: "n = ''width''"
    then have "js_declared (removeAttribute el n) ''height'' = js_declared el ''height''"
      by (simp add: js_declared_remove_other)
    with a b n show ?thesis
      by (simp add: getSVGDimensions_unfold Let_def split: option.splits)
  next
    assume n: "n = ''height''"
    then have "js_declared (removeAttribute el n) ''width'' = js_declared el ''width''"
      by (simp add: js_declared_remove_other)
    with a b n show ?thesis
      by (simp add: getSVGDimensions_unfold Let_def split: option.splits)
  qed
qed

text \<open>
  Claim C5. On a root element that has a \<open>viewBox\<close> property, \<open>getSVGDimensions\<close> returns
  what the specification says: the declared width and height when both are declared;
  else the declared width with the height that the viewBox ratio gives, when the viewBox
  height is not zero; else the declared height with the width that the ratio gives, when
  the viewBox width is not zero; else \<open>null\<close>. Here a dimension is declared when its
  attribute is no percentage (a percent sign at the end, white space after it apart) and
  reads as a number other than NaN and 0. An attribute that ends in a percent sign is not
  declared, and the result is the same as without the attribute. On a root element
  without a \<open>viewBox\<close> property the function returns the declared width and height when
  both are declared, and the error marker otherwise (\<open>getSVGDimensions_no_viewBox\<close>).
\<close>

theorem getSVGDimensions_cascade:
  assumes "viewBox el = Some (vw, vh)"
  shows "getSVGDimensions el = Returned (spec_getIntrinsicSize el vw vh) \<and>
         (\<forall>n s. (n = ''width'' \<or> n = ''height'') \<and> attributes el n = Some s \<and>
                s \<noteq> [] \<and> last s = CHR ''%'' \<longrightarrow>
                spec_declared el n = None \<and>
                getSVGDimensions el = getSVGDimensions (removeAttribute el n))"
proof (intro conjI allI impI)
  show "getSVGDimensions el = Returned (spec_getIntrinsicSize el vw vh)"
    using assms by (rule getSVGDimensions_spec)
next
  fix n s
  assume h: "(n = ''width'' \<or> n = ''height'') \<and> attributes el n = Some s \<and>
             s \<noteq> [] \<and> last s = CHR ''%''"
  then have p: "is_percent s" by (simp add: last_percent)
  from h p show "spec_declared el n = None" by (simp add: spec_declared_def)
next
  fix n s
  assume h: "(n = ''width'' \<or> n = ''height'') \<and> attributes el n = Some s \<and>
             s \<noteq> [] \<and> last s = CHR ''%''"
  then have p: "is_percent s \<or> \<not> num_truthy (parseFloat s)" by (simp add: last_percent)
  from h have a: "attributes el n = Some s" and n: "n = ''width'' \<or> n = ''height''"
    by blast+
  show "getSVGDimensions el = getSVGDimensions (removeAttribute el n)"
    by (rule declared_falsy_as_absent [OF a p n, symmetric])
qed

theorem getSVGDimensions_cascade_witness:
  "viewBox ex_svg = Some (Fin 10, Fin 20) \<and>
   attributes ex_svg ''width'' = Some ''100%'' \<and> last ''100%'' = CHR ''%'' \<and>
   getSVGDimensions ex_svg = Returned (Some \<lparr>width = Some (Fin 25), height = Some (Fin 50)\<rparr>) \<and>
   getSVGDimensions ex_svg = getSVGDimensions (removeAttribute ex_svg ''width'')"
proof -
  have v: "viewBox ex_svg = Some (Fin 10, Fin 20)" by (simp add: ex_svg_def)
  have a: "attributes ex_svg ''width'' = Some ''100%''" by (simp add: ex_svg_def)
  have s: "spec_getIntrinsicSize ex_svg (Fin 10) (Fin 20) =
             Some \<lparr>width = Some (Fin 25), height = Some (Fin 50)\<rparr>"
    by code_simp
  note t = getSVGDimensions_cascade [OF v]
  from t s have g: "getSVGDimensions ex_svg =
      Returned (Some \<lparr>width = Some (Fin 25), height = Some (Fin 50)\<rparr>)"
    by simp
  from t have "\<forall>n s. (n = ''width'' \<or> n = ''height'') \<and> attributes ex_svg n = Some s \<and>
                s \<noteq> [] \<and> last s = CHR ''%'' \<longrightarrow>
                spec_declared ex_svg n = None \<and>
                getSVGDimensions ex_svg = getSVGDimensions (removeAttribute ex_svg n)"
    by (rule conjunct2)
  from this [rule_format, of "''width''" "''100%''"] a
  have r: "getSVGDimensions ex_svg = getSVGDimensions (removeAttribute ex_svg ''width'')"
    by simp
  from v a g r show ?thesis by simp
qed

lemma setSVGDimensions_set:
  assumes "truthy (width sz) \<or> truthy (height sz)"
  shows "fst (setSVGDimensions (Some sz) el) = Returned sz"
    "attributes (snd (setSVGDimensions (Some sz) el)) ''width'' =
       (if truthy (width sz) then Some (num_to_string (num_of (width sz)) @ ''px'') else None)"
    "attributes (snd (setSVGDimensions (Some sz) el)) ''height'' =
       (if truthy (height sz) then Some (num_to_string (num_of (height sz)) @ ''px'') else None)"
    "n \<noteq> ''width'' \<Longrightarrow> n \<noteq> ''height'' \<Longrightarrow>
       attributes (snd (setSVGDimensions (Some sz) el)) n = attributes el n"
    "viewBox (snd (setSVGDimensions (Some sz) el)) = viewBox el"
  using assms
  by (cases "truthy (width sz)"; cases "truthy (height sz)";
      simp add: setSVGDimensions_def Let_def setAttribute_def removeAttribute_def)+

text \<open>
  Claim C6. \<open>setSVGDimensions\<close> never throws: on an argument that makes it throw inside, it
  returns the error marker and leaves the document alone. With neither width nor height
  given (truthy), it returns its argument and the document is unchanged. With at least
  one given, it returns its argument; each given dimension is the attribute's new value,
  the number followed by \<open>px\<close>; the attribute of a dimension that is not given is
  removed; no other attribute changes.
\<close>

theorem setSVGDimensions_effect:
  "(\<exists>e. setSVGDimensions None el = (ErrorMarker e, el)) \<and>
   (\<not> truthy (width sz) \<and> \<not> truthy (height sz) \<longrightarrow>
      setSVGDimensions (Some sz) el = (Returned sz, el)) \<and>
   (truthy (width sz) \<or> truthy (height sz) \<longrightarrow>
      fst (setSVGDimensions (Some sz) el) = Returned sz \<and>
      attributes (snd (setSVGDimensions (Some sz) el)) ''width'' =
        (if truthy (width sz) then Some (num_to_string (num_of (width sz)) @ ''px'') else None) \<and>
      attributes (snd (setSVGDimensions (Some sz) el)) ''height'' =
        (if truthy (height sz) then Some (num_to_string (num_of (height sz)) @ ''px'') else None) \<and>
      (\<forall>n. n \<noteq> ''width'' \<and> n \<noteq> ''height'' \<longrightarrow>
         attributes (snd (setSVGDimensions (Some sz) el)) n = attributes el n) \<and>
      viewBox (snd (setSVGDimensions (Some sz) el)) = viewBox el)"
proof -
  have a: "\<exists>e. setSVGDimensions None el = (ErrorMarker e, el)"
    by (simp add: setSVGDimensions_def)
  have b: "\<not> truthy (width sz) \<and> \<not> truthy (height sz) \<longrightarrow>
      setSVGDimensions (Some sz) el = (Returned sz, el)"
    by (simp add: setSVGDimensions_def)
  from a b setSVGDimensions_set[where sz=sz and el=el] show ?thesis by blast
qed

theorem setSVGDimensions_effect_witness:
  "\<not> truthy (width \<lparr>width = None, height = None\<rparr>) \<and>
   \<not> truthy (height \<lparr>width = None, height = None\<rparr>) \<and>
   setSVGDimensions (Some \<lparr>width = None, height = None\<rparr>) ex_svg =
     (Returned \<lparr>width = None, height = None\<rparr>, ex_svg) \<and>
   truthy (width \<lparr>width = Some (Fin 100), height = None\<rparr>) \<and>
   attributes (snd (setSVGDimensions (Some \<lparr>width = Some (Fin 100), height = None\<rparr>) ex_svg))
     ''width'' = Some ''100px'' \<and>
   attributes (snd (setSVGDimensions (Some \<lparr>width = Some (Fin 100), height = None\<rparr>) ex_svg))
     ''height'' = None \<and>
   attributes ex_svg ''height'' = Some ''50''"
proof -
  have n: "num_to_string (Fin 100) = ''100''" by code_simp
  have a: "attributes ex_svg ''height'' = Some ''50''" by (simp add: ex_svg_def)
  show ?thesis
    using n a
      setSVGDimensions_effect [of ex_svg "\<lparr>width = None, height = None\<rparr>"]
      setSVGDimensions_effect [of ex_svg "\<lparr>width = Some (Fin 100), height = None\<rparr>"]
    by simp
qed

lemma setSVGDimensions_Some:
  "setSVGDimensions (Some sz) el = (Returned sz, snd (setSVGDimensions (Some sz) el))"
  by (simp add: setSVGDimensions_def Let_def)

lemma setSVGDimensions_zero_width:
  "snd (setSVGDimensions (Some (sz\<lparr>width := Some (Fin 0)\<rparr>)) el) =
   snd (setSVGDimensions (Some (sz\<lparr>width := None\<rparr>)) el)"
  by (simp add: setSVGDimensions_def Let_def)

lemma setSVGDimensions_zero_height:
  "snd (setSVGDimensions (Some (sz\<lparr>height := Some (Fin 0)\<rparr>)) el) =
   snd (setSVGDimensions (Some (sz\<lparr>height := None\<rparr>)) el)"
  by (simp add: setSVGDimensions_def Let_def)

lemma resolve_dimensions_after_set:
  "resolve_dimensions env sz =
     (case checkEvalError (getSVGDimensions (snd (setSVGDimensions (Some sz) (document env)))) of
        Inl e \<Rightarrow> ([Evaluate_setSVGDimensions, Evaluate_getSVGDimensions], Inl e,
                  snd (setSVGDimensions (Some sz) (document env)))
      | Inr dimensions \<Rightarrow>
          (case setSVGDimensions dimensions (snd (setSVGDimensions (Some sz) (document env))) of
             (r3, d3) \<Rightarrow>
               (case checkEvalError r3 of
                  Inl e \<Rightarrow>
                    ([Evaluate_setSVGDimensions, Evaluate_getSVGDimensions,
                      Evaluate_setSVGDimensions], Inl e, d3)
                | Inr applied \<Rightarrow>
                    ([Evaluate_setSVGDimensions, Evaluate_getSVGDimensions,
                      Evaluate_setSVGDimensions, SetViewportSize applied],
                     (case set_viewportSize env applied of
                        Some e \<Rightarrow> Inl e | None \<Rightarrow> Inr applied),
                     d3))))"
  unfolding resolve_dimensions_def
  by (subst setSVGDimensions_Some) (simp add: checkEvalError_def)

text \<open>
  Claim C10. A requested dimension of 0 is handled as an omitted one: \<open>setSVGDimensions\<close>
  leaves the same document for both, changes nothing when both dimensions are 0, removes
  the attribute of the zero dimension when the other one is given, and the steps of
  \<open>convert\<close> that resolve the dimensions give the same trace, viewport and document for
  both. \<open>getSVGDimensions\<close> treats an attribute that reads as 0 as not declared: its
  result is the same as without the attribute.
\<close>

theorem zero_as_omitted:
  "snd (setSVGDimensions (Some (sz\<lparr>width := Some (Fin 0)\<rparr>)) el) =
     snd (setSVGDimensions (Some (sz\<lparr>width := None\<rparr>)) el) \<and>
   snd (setSVGDimensions (Some (sz\<lparr>height := Some (Fin 0)\<rparr>)) el) =
     snd (setSVGDimensions (Some (sz\<lparr>height := None\<rparr>)) el) \<and>
   attributes (snd (setSVGDimensions (Some \<lparr>width = Some (Fin 0), height = Some (Fin 0)\<rparr>) el)) =
     attributes el \<and>
   (truthy h \<longrightarrow>
      attributes (snd (setSVGDimensions (Some \<lparr>width = Some (Fin 0), height = h\<rparr>) el))
        ''width'' = None) \<and>
   (truthy w \<longrightarrow>
      attributes (snd (setSVGDimensions (Some \<lparr>width = w, height = Some (Fin 0)\<rparr>) el))
        ''height'' = None) \<and>
   resolve_dimensions env (sz\<lparr>width := Some (Fin 0)\<rparr>) =
     resolve_dimensions env (sz\<lparr>width := None\<rparr>) \<and>
   resolve_dimensions env (sz\<lparr>height := Some (Fin 0)\<rparr>) =
     resolve_dimensions env (sz\<lparr>height := None\<rparr>) \<and>
   (\<forall>n s. (n = ''width'' \<or> n = ''height'') \<and> attributes el n = Some s \<and>
          parseFloat s = Fin 0 \<longrightarrow>
          spec_declared el n = None \<and>
          getSVGDimensions el = getSVGDimensions (removeAttribute el n))"
proof (intro conjI allI impI)
  show "snd (setSVGDimensions (Some (sz\<lparr>width := Some (Fin 0)\<rparr>)) el) =
     snd (setSVGDimensions (Some (sz\<lparr>width := None\<rparr>)) el)"
    by (rule setSVGDimensions_zero_width)
  show "snd (setSVGDimensions (Some (sz\<lparr>height := Some (Fin 0)\<rparr>)) el) =
     snd (setSVGDimensions (Some (sz\<lparr>height := None\<rparr>)) el)"
    by (rule setSVGDimensions_zero_height)
  show "attributes (snd (setSVGDimensions (Some \<lparr>width = Some (Fin 0), height = Some (Fin 0)\<rparr>) el)) =
     attributes el"
    by (simp add: setSVGDimensions_def Let_def)
  show "attributes (snd (setSVGDimensions (Some \<lparr>width = Some (Fin 0), height = h\<rparr>) el))
        ''width'' = None" if "truthy h"
    using that by (simp add: setSVGDimensions_def Let_def setAttribute_def removeAttribute_def)
  show "attributes (snd (setSVGDimensions (Some \<lparr>width = w, height = Some (Fin 0)\<rparr>) el))
        ''height'' = None" if "truthy w"
    using that by (simp add: setSVGDimensions_def Let_def setAttribute_def removeAttribute_def)
  show "resolve_dimensions env (sz\<lparr>width := Some (Fin 0)\<rparr>) =
     resolve_dimensions env (sz\<lparr>width := None\<rparr>)"
    by (simp only: resolve_dimensions_after_set setSVGDimensions_zero_width)
  show "resolve_dimensions env (sz\<lparr>height := Some (Fin 0)\<rparr>) =
     resolve_dimensions env (sz\<lparr>height := None\<rparr>)"
    by (simp only: resolve_dimensions_after_set setSVGDimensions_zero_height)
next
  fix n s
  assume h: "(n = ''width'' \<or> n = ''height'') \<and> attributes el n = Some s \<and> parseFloat s = Fin 0"
  then show "spec_declared el n = None" by (simp add: spec_declared_def)
next
  fix n s
  assume h: "(n = ''width'' \<or> n = ''height'') \<and> attributes el n = Some s \<and> parseFloat s = Fin 0"
  then have p: "is_percent s \<or> \<not> num_truthy (parseFloat s)" by simp
  from h have a: "attributes el n = Some s" and n: "n = ''width'' \<or> n = ''height''"
    by blast+
  show "getSVGDimensions el = getSVGDimensions (removeAttribute el n)"
    by (rule declared_falsy_as_absent [OF a p n, symmetric])
qed

theorem zero_as_omitted_witness:
  "truthy (Some (Fin 7)) \<and>
   attributes (snd (setSVGDimensions (Some \<lparr>width = Some (Fin 0), height = Some (Fin 7)\<rparr>) ex_zero))
     ''width'' = None \<and>
   attributes ex_zero ''width'' = Some ''0'' \<and> parseFloat ''0'' = Fin 0 \<and>
   spec_declared ex_zero ''width'' = None \<and>
   getSVGDimensions ex_zero = getSVGDimensions (removeAttribute ex_zero ''width'')"
proof -
  have a: "attributes ex_zero ''width'' = Some ''0''" by (simp add: ex_zero_def)
  have p: "parseFloat ''0'' = Fin 0" by code_simp
  have y: "truthy (Some (Fin 7))" by simp
  note t = zero_as_omitted [where el = ex_zero and h = "Some (Fin 7)"]
  note t4 = t [THEN conjunct2, THEN conjunct2, THEN conjunct2, THEN conjunct1]
  note t8 = t [THEN conjunct2, THEN conjunct2, THEN conjunct2, THEN conjunct2,
      THEN conjunct2, THEN conjunct2, THEN conjunct2]
  from t4 y have s: "attributes (snd (setSVGDimensions
      (Some \<lparr>width = Some (Fin 0), height = Some (Fin 7)\<rparr>) ex_zero)) ''width'' = None"
    by (rule mp)
  from t8 [rule_format, of "''width''" "''0''"] a p
  have r: "spec_declared ex_zero ''width'' = None \<and>
      getSVGDimensions ex_zero = getSVGDimensions (removeAttribute ex_zero ''width'')"
    by blast
  from y s a p r show ?thesis by blast
qed

section \<open>Properties of the conversion of one file\<close>

lemma fileToBase64_Inr: "file_base64 env = Inr d \<Longrightarrow> fileToBase64 env = Inr (dataPrefix @ d)"
  by (simp add: fileToBase64_def)

lemma fileToBase64_Inl: "file_base64 env = Inl e \<Longrightarrow> fileToBase64 env = Inl e"
  by (simp add: fileToBase64_def)

text \<open>
  Claim C8. When the page is created, the file is read and \<open>page.open\<close> reports a status
  other than \<open>success\<close>, \<open>convert\<close> does nothing but close the page: no evaluation, no
  viewport, no rendering. It is rejected with an error whose message contains the source
  path and the status, and that error is the outcome of the job's worker.
\<close>

theorem load_failure:
  assumes "createPage env = None" "file_base64 env = Inr d"
    "page_open env (dataPrefix @ d) = Inr status" "status \<noteq> ''success''"
  shows "convert env srcPath sz =
           ([CreatePage, ReadFile srcPath, PageOpen (dataPrefix @ d), PageClose],
            Inl (Error (''File '' @ srcPath @ '' has been opened with status '' @ status))) \<and>
         (\<exists>msg a b c. snd (convert env srcPath sz) = Inl (Error msg) \<and>
            msg = a @ srcPath @ b @ status @ c) \<and>
         (\<forall>writeFile fileMap envs. envs srcPath = env \<longrightarrow>
            worker envs writeFile fileMap sz srcPath =
              Inl (Error (''File '' @ srcPath @ '' has been opened with status '' @ status)))"
proof -
  have c: "convert env srcPath sz =
           ([CreatePage, ReadFile srcPath, PageOpen (dataPrefix @ d), PageClose],
            Inl (Error (''File '' @ srcPath @ '' has been opened with status '' @ status)))"
    using assms by (simp add: convert_def page_steps_def fileToBase64_Inr)
  have m: "\<exists>msg a b c. snd (convert env srcPath sz) = Inl (Error msg) \<and>
            msg = a @ srcPath @ b @ status @ c"
    unfolding c by (intro exI[of _ "''File '' @ srcPath @ '' has been opened with status '' @ status"]
        exI[of _ "''File ''"] exI[of _ "'' has been opened with status ''"] exI[of _ "[]"]) simp
  have w: "\<forall>writeFile fileMap envs. envs srcPath = env \<longrightarrow>
            worker envs writeFile fileMap sz srcPath =
              Inl (Error (''File '' @ srcPath @ '' has been opened with status '' @ status))"
    using c by (simp add: worker_def)
  from c m w show ?thesis by blast
qed

theorem load_failure_witness:
  "createPage ex_env = None \<and> file_base64 ex_env = Inr ''PHN2Zy8+'' \<and>
   page_open ex_env (dataPrefix @ ''PHN2Zy8+'') = Inr ''fail'' \<and> ''fail'' \<noteq> ''success'' \<and>
   convert ex_env ''in/a.svg'' \<lparr>width = None, height = None\<rparr> =
     ([CreatePage, ReadFile ''in/a.svg'', PageOpen (dataPrefix @ ''PHN2Zy8+''), PageClose],
      Inl (Error ''File in/a.svg has been opened with status fail''))"
proof -
  have a: "createPage ex_env = None" "file_base64 ex_env = Inr ''PHN2Zy8+''"
    "page_open ex_env (dataPrefix @ ''PHN2Zy8+'') = Inr ''fail''" "''fail'' \<noteq> ''success''"
    by (simp_all add: ex_env_def)
  from load_failure [OF a, of "''in/a.svg''" "\<lparr>width = None, height = None\<rparr>"] a
  show ?thesis by simp
qed

text \<open>
  Claim C4, at the input where the code departs from it. When the page is created and the
  file cannot be read, \<open>Promise.all\<close> is rejected and its callback, the only place that
  closes the page, never runs: \<open>convert\<close> reports the read error and the page stays open.
\<close>

theorem page_never_closed:
  assumes "createPage env = None" "file_base64 env = Inl e"
  shows "convert env srcPath sz = ([CreatePage, ReadFile srcPath], Inl e) \<and>
         PageClose \<notin> set (fst (convert env srcPath sz))"
  using assms by (simp add: convert_def fileToBase64_Inl)

theorem page_never_closed_witness:
  "createPage ex_env_unreadable = None \<and> file_base64 ex_env_unreadable = Inl (Error ''ENOENT'') \<and>
   convert ex_env_unreadable ''in/a.svg'' \<lparr>width = None, height = None\<rparr> =
     ([CreatePage, ReadFile ''in/a.svg''], Inl (Error ''ENOENT'')) \<and>
   PageClose \<notin> set (fst (convert ex_env_unreadable ''in/a.svg'' \<lparr>width = None, height = None\<rparr>))"
proof -
  have a: "createPage ex_env_unreadable = None"
    "file_base64 ex_env_unreadable = Inl (Error ''ENOENT'')"
    by (simp_all add: ex_env_unreadable_def ex_env_def)
  from page_never_closed [OF a, of "''in/a.svg''" "\<lparr>width = None, height = None\<rparr>"] a
  show ?thesis by simp
qed

text \<open>
  On every other path of \<open>convert\<close> on which the page was created, closing the page is
  the last thing done before the outcome is reported, and it is done once.
\<close>

lemma page_closed_last:
  assumes "createPage env = None" "file_base64 env = Inr d"
  shows "\<exists>tr. fst (convert env srcPath sz) = CreatePage # tr @ [PageClose] \<and> PageClose \<notin> set tr"
proof -
  obtain t1 r1 doc where rd: "resolve_dimensions env sz = (t1, r1, doc)"
    by (cases "resolve_dimensions env sz") auto
  have t1: "PageClose \<notin> set t1"
    using rd by (auto simp: resolve_dimensions_def split: prod.splits sum.splits)
  obtain t2 r2 where ps: "page_steps env srcPath (dataPrefix @ d) sz = (t2, r2)"
    by (cases "page_steps env srcPath (dataPrefix @ d) sz") auto
  have t2: "PageClose \<notin> set t2"
    using ps rd t1 by (auto simp: page_steps_def split: sum.splits if_splits)
  have "fst (convert env srcPath sz) = CreatePage # (ReadFile srcPath # t2) @ [PageClose]"
    using assms ps by (simp add: convert_def fileToBase64_Inr)
  with t2 show ?thesis by (intro exI[of _ "ReadFile srcPath # t2"]) simp
qed

lemma not_space_x: "\<not> is_space CHR ''x''"
  by code_simp

lemma rev_px: "rev (s @ ''px'') = CHR ''x'' # CHR ''p'' # rev s"
  by simp

lemma dropWhile_space_x: "dropWhile is_space (CHR ''x'' # t) = CHR ''x'' # t"
  using not_space_x by simp

lemma is_percent_px [simp]: "\<not> is_percent (s @ ''px'')"
  unfolding is_percent_def rev_px dropWhile_space_x by simp

lemma fst_setSVGDimensions_Some: "fst (setSVGDimensions (Some sz) el) = Returned sz"
  by (simp add: setSVGDimensions_def Let_def)

text \<open>
  The text of an integer, followed by \<open>px\<close>, reads back as that integer; so does the text
  of an infinity.
\<close>

lemma digit_char: "d < 10 \<Longrightarrow> is_digit (char_of (48 + d)) \<and> digit_val (char_of (48 + (d::nat))) = d"
  by (simp add: is_digit_def digit_val_def)

lemma nat_digits_digits: "nat_digits n \<noteq> [] \<and> (\<forall>c\<in>set (nat_digits n). is_digit c)"
proof (induction n rule: nat_digits.induct)
  case (1 n)
  show ?case
  proof (cases "n < 10")
    case True
    then show ?thesis by (subst nat_digits.simps, subst (2) nat_digits.simps) (simp add: digit_char)
  next
    case False
    have "n mod 10 < 10" by simp
    then have "is_digit (char_of (48 + n mod 10))" using digit_char by blast
    with False 1 show ?thesis
      by (subst nat_digits.simps, subst (2) nat_digits.simps) simp
  qed
qed

lemma digits_val_snoc: "digits_val (ds @ [c]) = 10 * digits_val ds + digit_val c"
  by (simp add: digits_val_def)

lemma digits_val_nat_digits: "digits_val (nat_digits n) = n"
proof (induction n rule: nat_digits.induct)
  case (1 n)
  show ?case
  proof (cases "n < 10")
    case True
    then show ?thesis by (subst nat_digits.simps) (simp add: digits_val_def digit_char)
  next
    case False
    have "n mod 10 < 10" by simp
    then have "digit_val (char_of (48 + n mod 10)) = n mod 10" using digit_char by blast
    with False 1 show ?thesis
      by (subst nat_digits.simps) (simp add: digits_val_snoc)
  qed
qed

lemma not_digit_chars:
  "\<not> is_digit CHR ''p''" "\<not> is_digit CHR ''I''" "\<not> is_digit CHR ''-''" "\<not> is_digit CHR ''+''"
  "\<not> is_digit CHR ''.''" "\<not> is_space CHR ''-''"
  by code_simp+

lemma digit_not_space: "is_digit c \<Longrightarrow> \<not> is_space c"
  by (auto simp: is_digit_def is_space_def)

lemma parse_exponent_px: "parse_exponent ''px'' = 0"
  by (simp add: parse_exponent_def)

lemma parse_unsigned_digits_px:
  assumes "ds \<noteq> []" "\<forall>c\<in>set ds. is_digit c"
  shows "parse_unsigned (ds @ ''px'') = Fin (of_nat (digits_val ds))"
proof -
  obtain c r where ds: "ds = c # r" using assms(1) by (cases ds) auto
  with assms(2) have c: "is_digit c" by simp
  then have "c \<noteq> CHR ''I''" using not_digit_chars by blast
  then have ni: "take 8 (ds @ ''px'') \<noteq> ''Infinity''" by (simp add: ds)
  have tw: "takeWhile is_digit (ds @ ''px'') = ds"
    using assms(2) not_digit_chars(1) by (simp add: takeWhile_append2)
  have dw: "dropWhile is_digit (ds @ ''px'') = ''px''"
    using assms(2) not_digit_chars(1) by (simp add: dropWhile_append2)
  show ?thesis
    unfolding parse_unsigned_def Let_def tw dw
    using ni assms(1) by (simp add: parse_exponent_px scale10_def)
qed

lemma roundtrip_int:
  "parseFloat (num_to_string (Fin (of_int n)) @ ''px'') = Fin (of_int n)"
proof -
  have u: "unsigned_to_string (of_nat m) = nat_digits m" for m
    by (simp add: unsigned_to_string_def)
  have p: "parseFloat (nat_digits m @ ''px'') = Fin (of_nat m)" for m
  proof -
    obtain c r where ds: "nat_digits m = c # r"
      using nat_digits_digits[of m] by (cases "nat_digits m") auto
    with nat_digits_digits[of m] have c: "is_digit c" by simp
    then have x: "\<not> is_space c" "c \<noteq> CHR ''-''" "c \<noteq> CHR ''+''"
      using not_digit_chars digit_not_space by blast+
    have "parseFloat (nat_digits m @ ''px'') = parse_unsigned (nat_digits m @ ''px'')"
      unfolding ds parseFloat_def using x by simp
    then show ?thesis
      using parse_unsigned_digits_px[of "nat_digits m"] nat_digits_digits[of m]
      by (simp add: digits_val_nat_digits)
  qed
  have q: "parseFloat (CHR ''-'' # nat_digits m @ ''px'') = Fin (- of_nat m)" for m
  proof -
    have "parseFloat (CHR ''-'' # nat_digits m @ ''px'') = jsneg (parse_unsigned (nat_digits m @ ''px''))"
      unfolding parseFloat_def using not_digit_chars(6) by simp
    then show ?thesis
      using parse_unsigned_digits_px[of "nat_digits m"] nat_digits_digits[of m]
      by (simp add: digits_val_nat_digits)
  qed
  show ?thesis
  proof (cases "n < 0")
    case True
    then obtain m where m: "n = - int m" by (metis neg_0_less_iff_less zero_less_imp_eq_int minus_minus)
    with True have "(of_int n :: rat) < 0" by simp
    then show ?thesis using u[of m] q[of m] by (simp add: m)
  next
    case False
    then obtain m where m: "n = int m" using nonneg_int_cases by (metis not_less)
    then have "\<not> (of_int n :: rat) < 0" by simp
    then show ?thesis using u[of m] p[of m] by (simp add: m)
  qed
qed

lemma roundtrip_inf:
  "parseFloat (num_to_string PInf @ ''px'') = PInf" "parseFloat (num_to_string NInf @ ''px'') = NInf"
  by code_simp+

text \<open>
  Claim C7. For a request with both a width and a height (truthy numbers that
  \<open>parseFloat\<close> reads back from their text followed by \<open>px\<close>, as it does for every
  number of JavaScript, and here for every integer by \<open>roundtrip_int\<close>), and for every
  document: the three evaluations pass their error checks and the viewport that is set is
  the request itself. In \<open>convert\<close>, once the page has opened with success, that is the
  only viewport ever set.
\<close>

theorem both_requested:
  assumes "num_truthy w" "num_truthy h"
    "parseFloat (num_to_string w @ ''px'') = w" "parseFloat (num_to_string h @ ''px'') = h"
  shows "fst (resolve_dimensions env \<lparr>width = Some w, height = Some h\<rparr>) =
           [Evaluate_setSVGDimensions, Evaluate_getSVGDimensions, Evaluate_setSVGDimensions,
            SetViewportSize \<lparr>width = Some w, height = Some h\<rparr>] \<and>
         fst (snd (resolve_dimensions env \<lparr>width = Some w, height = Some h\<rparr>)) =
           (case set_viewportSize env \<lparr>width = Some w, height = Some h\<rparr> of
              Some e \<Rightarrow> Inl e | None \<Rightarrow> Inr \<lparr>width = Some w, height = Some h\<rparr>) \<and>
         (createPage env = None \<and> file_base64 env = Inr d \<and>
          page_open env (dataPrefix @ d) = Inr ''success'' \<longrightarrow>
            (\<forall>v. SetViewportSize v \<in> set (fst (convert env srcPath \<lparr>width = Some w, height = Some h\<rparr>))
                 \<longleftrightarrow> v = \<lparr>width = Some w, height = Some h\<rparr>))"
proof -
  let ?sz = "\<lparr>width = Some w, height = Some h\<rparr>"
  let ?d1 = "snd (setSVGDimensions (Some ?sz) (document env))"
  let ?tr = "[Evaluate_setSVGDimensions, Evaluate_getSVGDimensions, Evaluate_setSVGDimensions,
            SetViewportSize ?sz]"
  have aw: "attributes ?d1 ''width'' = Some (num_to_string w @ ''px'')"
    and ah: "attributes ?d1 ''height'' = Some (num_to_string h @ ''px'')"
    using assms(1,2) by (simp_all add: setSVGDimensions_def Let_def setAttribute_def)
  have jw: "js_declared ?d1 ''width'' = Some w"
    using aw assms(3) by (simp add: js_declared_def getAttribute_def or_empty_def parseFloat_attr_def)
  have jh: "js_declared ?d1 ''height'' = Some h"
    using ah assms(4) by (simp add: js_declared_def getAttribute_def or_empty_def parseFloat_attr_def)
  have g: "getSVGDimensions ?d1 = Returned (Some ?sz)"
    using jw jh assms(1,2) by (simp add: getSVGDimensions_unfold)
  have r: "fst (resolve_dimensions env ?sz) = ?tr \<and>
         fst (snd (resolve_dimensions env ?sz)) =
           (case set_viewportSize env ?sz of Some e \<Rightarrow> Inl e | None \<Rightarrow> Inr ?sz)"
    unfolding resolve_dimensions_after_set g
    by (simp add: checkEvalError_def fst_setSVGDimensions_Some split_beta)
  have c: "\<forall>v. SetViewportSize v \<in> set (fst (convert env srcPath ?sz)) \<longleftrightarrow> v = ?sz"
    if p: "createPage env = None \<and> file_base64 env = Inr d \<and>
          page_open env (dataPrefix @ d) = Inr ''success''"
  proof -
    obtain res doc where rd: "resolve_dimensions env ?sz = (?tr, res, doc)"
      using r by (cases "resolve_dimensions env ?sz") auto
    have "fst (page_steps env srcPath (dataPrefix @ d) ?sz) = PageOpen (dataPrefix @ d) # ?tr
        \<or> fst (page_steps env srcPath (dataPrefix @ d) ?sz) =
            PageOpen (dataPrefix @ d) # ?tr @ [RenderBase64]"
      using p rd by (simp add: page_steps_def split: sum.splits)
    then have "fst (convert env srcPath ?sz) =
          [CreatePage, ReadFile srcPath] @ (PageOpen (dataPrefix @ d) # ?tr) @ [PageClose]
        \<or> fst (convert env srcPath ?sz) =
          [CreatePage, ReadFile srcPath] @ (PageOpen (dataPrefix @ d) # ?tr @ [RenderBase64]) @
            [PageClose]"
      using p by (auto simp: convert_def fileToBase64_Inr split_beta)
    then show ?thesis by auto
  qed
  from r c show ?thesis by blast
qed

theorem both_requested_witness:
  "num_truthy (Fin 100) \<and> parseFloat (num_to_string (Fin 100) @ ''px'') = Fin 100 \<and>
   createPage ex_env_ok = None \<and> file_base64 ex_env_ok = Inr ''PHN2Zy8+'' \<and>
   page_open ex_env_ok (dataPrefix @ ''PHN2Zy8+'') = Inr ''success'' \<and>
   getSVGDimensions (document ex_env_ok) =
     Returned (Some \<lparr>width = Some (Fin 25), height = Some (Fin 50)\<rparr>) \<and>
   fst (resolve_dimensions ex_env_ok \<lparr>width = Some (Fin 100), height = Some (Fin 100)\<rparr>) =
     [Evaluate_setSVGDimensions, Evaluate_getSVGDimensions, Evaluate_setSVGDimensions,
      SetViewportSize \<lparr>width = Some (Fin 100), height = Some (Fin 100)\<rparr>] \<and>
   SetViewportSize \<lparr>width = Some (Fin 100), height = Some (Fin 100)\<rparr>
     \<in> set (fst (convert ex_env_ok ''in/a.svg'' \<lparr>width = Some (Fin 100), height = Some (Fin 100)\<rparr>))"
proof -
  have t: "num_truthy (Fin 100)" by simp
  have p: "parseFloat (num_to_string (Fin 100) @ ''px'') = Fin 100" by code_simp
  have e: "createPage ex_env_ok = None \<and> file_base64 ex_env_ok = Inr ''PHN2Zy8+'' \<and>
      page_open ex_env_ok (dataPrefix @ ''PHN2Zy8+'') = Inr ''success''"
    by (simp add: ex_env_ok_def ex_env_def)
  have g: "getSVGDimensions (document ex_env_ok) =
      Returned (Some \<lparr>width = Some (Fin 25), height = Some (Fin 50)\<rparr>)"
    by code_simp
  note b = both_requested [OF t t p p, of ex_env_ok "''PHN2Zy8+''" "''in/a.svg''"]
  from b e have "\<forall>v. SetViewportSize v \<in> set (fst (convert ex_env_ok ''in/a.svg''
          \<lparr>width = Some (Fin 100), height = Some (Fin 100)\<rparr>))
        \<longleftrightarrow> v = \<lparr>width = Some (Fin 100), height = Some (Fin 100)\<rparr>"
    by blast
  then have c: "SetViewportSize \<lparr>width = Some (Fin 100), height = Some (Fin 100)\<rparr>
     \<in> set (fst (convert ex_env_ok ''in/a.svg'' \<lparr>width = Some (Fin 100), height = Some (Fin 100)\<rparr>))"
    by blast
  from t p e g b c show ?thesis by blast
qed

section \<open>Properties of the pool\<close>

lemma pool_inv_init: "pool_inv work (map fst fileMap) (nat pages) (convertMany fileMap pages)"
proof -
  let ?keys = "map fst fileMap"
  have "mset (map work (drop (nat pages) ?keys)) + mset (map work (take (nat pages) ?keys))
        = mset (map work ?keys)"
    by (metis add.commute append_take_drop_id map_append mset_append)
  moreover have "mset (drop (nat pages) ?keys) + mset (take (nat pages) ?keys) = mset ?keys"
    by (metis add.commute append_take_drop_id mset_append)
  ultimately show ?thesis
    unfolding pool_inv_def convertMany_def Let_def by (simp add: min_def)
qed

lemma mset_map_remove1:
  "w \<in> set xs \<Longrightarrow> mset (map f xs) = add_mset (f w) (mset (map f (remove1 w xs)))"
  by (induction xs) auto

lemma pool_inv_settles:
  assumes "pool_inv work keys cap p" "step work (length keys) (WorkerSettles w) p = Some p'"
  shows "pool_inv work keys cap p'"
proof -
  from assms(2) have w: "w \<in> set (running p)"
    by (auto simp: step_def split: if_splits)
  then have "0 < length (running p)" by (rule length_pos_if_in_set)
  then obtain k where k1: "length (running p) = Suc k" by (cases "length (running p)") auto
  with w have k: "length (running p) = Suc k" "length (remove1 w (running p)) = k"
    by (simp_all add: length_remove1)
  have ms: "mset (map work (running p)) = add_mset (work w) (mset (map work (remove1 w (running p))))"
    using w by (rule mset_map_remove1)
  have mr: "mset (remove1 w (running p)) + mset (settled p @ [w]) =
      mset (running p) + mset (settled p)"
    using w by simp
  have nb: "batch p = None" using assms(1) w by (cases "batch p") (auto simp: pool_inv_def)
  from assms(1) have
    i1: "length (restWorkers p) + length (running p) + length (results p) + length (errors p) = length keys"
    and i2: "length (running p) + queued p \<le> min cap (length keys)"
    and i3: "restWorkers p \<noteq> [] \<longrightarrow> length (running p) + queued p = min cap (length keys)"
    and i5: "mset (map work (restWorkers p)) + mset (map work (running p)) +
        mset (map Inl (errors p)) + mset (map Inr (written p)) = mset (map work keys)"
    and i6: "map fst (written p) = results p"
    and i7: "mset (restWorkers p) + mset (running p) + mset (settled p) = mset keys"
    by (simp_all add: pool_inv_def)
  show ?thesis
  proof (cases "work w")
    case (Inl e)
    with assms(2) w have p': "p' = p\<lparr>running := remove1 w (running p), errors := errors p @ [e],
                         queued := Suc (queued p), settled := settled p @ [w]\<rparr>"
      by (simp add: step_def)
    have "mset (map work (restWorkers p')) + mset (map work (running p')) +
        mset (map Inl (errors p')) + mset (map Inr (written p')) = mset (map work keys)"
      using i5 ms Inl by (simp add: p')
    moreover have "length (restWorkers p') + length (running p') + length (results p') + length (errors p') = length keys"
      using i1 k by (simp add: p')
    moreover have "length (running p') + queued p' = length (running p) + queued p"
      using k by (simp add: p')
    moreover have "batch p' = None" "restWorkers p' = restWorkers p" "map fst (written p') = results p'"
      using nb i6 by (simp_all add: p')
    moreover have "mset (restWorkers p') + mset (running p') + mset (settled p') = mset keys"
      using i7 mr by (simp add: p' add.assoc del: mset_append mset_remove1)
    ultimately show ?thesis using i2 i3 k unfolding pool_inv_def
      by simp
  next
    case (Inr db)
    obtain d b where db: "db = (d, b)" by (cases db)
    with Inr assms(2) w have p': "p' = p\<lparr>running := remove1 w (running p), results := results p @ [d],
                         queued := Suc (queued p), written := written p @ [(d, b)],
                         settled := settled p @ [w]\<rparr>"
      by (simp add: step_def)
    have "mset (map work (restWorkers p')) + mset (map work (running p')) +
        mset (map Inl (errors p')) + mset (map Inr (written p')) = mset (map work keys)"
      using i5 ms Inr db by (simp add: p')
    moreover have "length (restWorkers p') + length (running p') + length (results p') + length (errors p') = length keys"
      using i1 k by (simp add: p')
    moreover have "length (running p') + queued p' = length (running p) + queued p"
      using k by (simp add: p')
    moreover have "batch p' = None" "restWorkers p' = restWorkers p" "map fst (written p') = results p'"
      using nb i6 by (simp_all add: p')
    moreover have "mset (restWorkers p') + mset (running p') + mset (settled p') = mset keys"
      using i7 mr by (simp add: p' add.assoc del: mset_append mset_remove1)
    ultimately show ?thesis using i2 i3 k unfolding pool_inv_def
      by simp
  qed
qed

lemma pool_inv_next:
  assumes "pool_inv work keys cap p" "step work (length keys) RunProcessNext p = Some p'"
  shows "pool_inv work keys cap p'"
proof -
  from assms(2) obtain q where q: "queued p = Suc q"
    and p': "p' = processNext (length keys) (p\<lparr>queued := q\<rparr>)"
    by (cases "queued p") (auto simp: step_def split: if_splits)
  from assms(1) have
    i1: "length (restWorkers p) + length (running p) + length (results p) + length (errors p) = length keys"
    and i2: "length (running p) + queued p \<le> min cap (length keys)"
    and i3: "restWorkers p \<noteq> [] \<longrightarrow> length (running p) + queued p = min cap (length keys)"
    and i4: "\<forall>r. batch p = Some r \<longrightarrow>
           restWorkers p = [] \<and> running p = [] \<and>
           r = (if errors p \<noteq> [] then Rejected (errors p) else Resolved (results p))"
    and i5: "mset (map work (restWorkers p)) + mset (map work (running p)) +
        mset (map Inl (errors p)) + mset (map Inr (written p)) = mset (map work keys)"
    and i6: "map fst (written p) = results p"
    and i7: "mset (restWorkers p) + mset (running p) + mset (settled p) = mset keys"
    by (simp_all add: pool_inv_def)
  show ?thesis
  proof (cases "restWorkers p = []")
    case False
    then obtain ws x where wx: "restWorkers p = ws @ [x]"
      by (cases "restWorkers p" rule: rev_cases) auto
    have nb: "batch p = None" using i4 False by (cases "batch p") auto
    have p'': "p' = p\<lparr>queued := q, restWorkers := ws, running := running p @ [x]\<rparr>"
      using wx by (simp add: p' processNext_def startWorker_def)
    have "mset (map work (restWorkers p')) + mset (map work (running p')) +
        mset (map Inl (errors p')) + mset (map Inr (written p')) = mset (map work keys)"
      using i5 wx by (simp add: p'')
    moreover have "length (restWorkers p') + length (running p') + length (results p') + length (errors p') = length keys"
      using i1 wx by (simp add: p'')
    moreover have "length (running p') + queued p' = min cap (length keys)"
      using i3 False q by (simp add: p'')
    moreover have "batch p' = None" "map fst (written p') = results p'" "0 < length (running p')"
      using nb i6 by (simp_all add: p'')
    moreover have "mset (restWorkers p') + mset (running p') + mset (settled p') = mset keys"
      using i7 wx by (simp add: p'')
    ultimately show ?thesis unfolding pool_inv_def
      by simp
  next
    case True
    show ?thesis
    proof (cases "length keys \<le> length (errors p) + length (results p)")
      case alld: True
      from alld i1 have "\<not> 0 < length (running p)" by linarith
      then have r: "running p = []" by simp
      have p'': "p' = settle (if errors p \<noteq> [] then Rejected (errors p) else Resolved (results p)) (p\<lparr>queued := q\<rparr>)"
        using True alld by (simp add: p' processNext_def)
      show ?thesis using i1 i2 i4 i5 i6 i7 True r q unfolding p'' pool_inv_def settle_def
        by (cases "batch p") simp_all
    next
      case notdone: False
      have p'': "p' = p\<lparr>queued := q\<rparr>"
        using True notdone by (simp add: p' processNext_def)
      from True i1 have "length (running p) + length (results p) + length (errors p) = length keys"
        by simp
      with notdone have "1 \<le> length (running p)" by linarith
      then have "0 < length (running p) + q" "running p \<noteq> []" by auto
      moreover from this i4 have "batch p = None" by (cases "batch p") auto
      ultimately show ?thesis using i1 i2 i4 i5 i6 i7 True q unfolding p'' pool_inv_def
        by simp
    qed
  qed
qed

lemma pool_inv_step:
  "pool_inv work keys cap p \<Longrightarrow> step work (length keys) ev p = Some p' \<Longrightarrow> pool_inv work keys cap p'"
  by (cases ev) (auto intro: pool_inv_settles pool_inv_next)

lemma pool_inv_run:
  "pool_inv work keys cap p \<Longrightarrow> run work (length keys) evs p = Some p' \<Longrightarrow> pool_inv work keys cap p'"
  by (induction evs arbitrary: p) (auto split: option.splits dest: pool_inv_step)

lemma lefts_simps: "lefts (image_mset Inl A + image_mset Inr B) = A"
   "rights (image_mset Inl A + image_mset Inr B) = B"
  by (simp_all add: lefts_def rights_def filter_mset_image_mset multiset.map_comp comp_def)

lemma failures_of_mset: "mset (failures_of work ks) = lefts (mset (map work ks))"
  by (induction ks) (auto simp: failures_of_def lefts_def split: sum.splits)

lemma successes_of_mset: "mset (successes_of work ks) = image_mset fst (rights (mset (map work ks)))"
  by (induction ks) (auto simp: successes_of_def rights_def split: sum.splits)

lemma pool_inv_outcomes:
  assumes "pool_inv work keys cap p" "restWorkers p = []" "running p = []"
  shows "mset (errors p) = mset (failures_of work keys)"
    "mset (results p) = mset (successes_of work keys)"
    "mset (map fst (written p)) = mset (successes_of work keys)"
proof -
  from assms have e: "image_mset Inl (mset (errors p)) + image_mset Inr (mset (written p)) = mset (map work keys)"
    and r: "map fst (written p) = results p"
    by (simp_all add: pool_inv_def)
  show "mset (errors p) = mset (failures_of work keys)"
    unfolding failures_of_mset e[symmetric] by (simp add: lefts_simps)
  show "mset (map fst (written p)) = mset (successes_of work keys)"
    unfolding successes_of_mset e[symmetric] by (simp add: lefts_simps)
  then show "mset (results p) = mset (successes_of work keys)" using r by simp
qed

lemma batch_run_inv:
  "batch_run work fileMap pages evs = Some p \<Longrightarrow> pool_inv work (map fst fileMap) (nat pages) p"
  unfolding batch_run_def using pool_inv_init pool_inv_run by blast

lemma ex_run: "batch_run ex_work ex_fileMap 1 ex_schedule = Some ex_final"
  by code_simp

lemma run_stuck:
  "running p = [] \<Longrightarrow> queued p = 0 \<Longrightarrow> run work n evs p = Some p' \<Longrightarrow> evs = [] \<and> p' = p"
  by (cases evs) (auto simp: step_def split: event.splits)

text \<open>
  Every event makes the measure smaller, so a schedule is never longer than the measure of
  the state it starts in, and from every state some schedule leads to a state where
  nothing more can happen. A settled promise stays as it is, with the same arrays. When
  all jobs have settled, the next call of \<open>processNext\<close> settles the promise. A batch
  with at least one file and one slot has a schedule that ends with the promise settled.
\<close>

lemma step_measure:
  assumes "step work n ev p = Some p'"
  shows "pool_measure p' < pool_measure p"
proof (cases ev)
  case (WorkerSettles w)
  with assms have w: "w \<in> set (running p)"
    by (auto simp: step_def split: if_splits)
  then have "0 < length (running p)" by (rule length_pos_if_in_set)
  then obtain k where k: "length (running p) = Suc k" by (cases "length (running p)") auto
  with w have l: "length (remove1 w (running p)) = k" by (simp add: length_remove1)
  from assms WorkerSettles w k l show ?thesis
    by (auto simp: step_def pool_measure_def split: sum.splits prod.splits)
next
  case RunProcessNext
  with assms obtain q where q: "queued p = Suc q"
    and p': "p' = processNext n (p\<lparr>queued := q\<rparr>)"
    by (cases "queued p") (auto simp: step_def split: if_splits)
  show ?thesis
  proof (cases "restWorkers p")
    case Nil
    with q show ?thesis
      by (simp add: p' processNext_def settle_def pool_measure_def)
  next
    case (Cons a list)
    then have "length (butlast (restWorkers p)) = length list" by simp
    with Cons q show ?thesis
      by (simp add: p' processNext_def startWorker_def pool_measure_def del: butlast.simps)
  qed
qed

lemma run_length:
  "run work n evs p = Some p' \<Longrightarrow> length evs + pool_measure p' \<le> pool_measure p"
proof (induction evs arbitrary: p)
  case Nil
  then show ?case by simp
next
  case (Cons ev evs)
  then obtain p1 where s: "step work n ev p = Some p1" and r: "run work n evs p1 = Some p'"
    by (auto split: option.splits)
  from Cons.IH[OF r] step_measure[OF s] show ?case by simp
qed

lemma run_can_finish:
  "\<exists>evs p'. run work n evs p = Some p' \<and> quiescent p'"
proof (induction p rule: measure_induct_rule[where f = pool_measure])
  case (less p)
  show ?case
  proof (cases "quiescent p")
    case True
    then have "run work n [] p = Some p \<and> quiescent p" by simp
    then show ?thesis by blast
  next
    case False
    have "\<exists>ev p1. step work n ev p = Some p1"
    proof (cases "running p")
      case Nil
      with False have "queued p \<noteq> 0" by (simp add: quiescent_def)
      then have "step work n RunProcessNext p = Some (processNext n (p\<lparr>queued := queued p - 1\<rparr>))"
        by (simp add: step_def)
      then show ?thesis by blast
    next
      case (Cons w ws)
      then have "w \<in> set (running p)" by simp
      then have "\<exists>p1. step work n (WorkerSettles w) p = Some p1"
        by (auto simp: step_def split: sum.splits)
      then show ?thesis by blast
    qed
    then obtain ev p1 where s: "step work n ev p = Some p1" by blast
    from less.IH[OF step_measure[OF s]] obtain evs p' where
      "run work n evs p1 = Some p'" "quiescent p'" by blast
    with s have "run work n (ev # evs) p = Some p' \<and> quiescent p'" by simp
    then show ?thesis by blast
  qed
qed

lemma batch_settled_step:
  assumes "pool_inv work keys cap p" "batch p = Some r" "step work (length keys) ev p = Some p'"
  shows "batch p' = Some r \<and> errors p' = errors p \<and> results p' = results p"
proof -
  from assms(1) have i1:
    "length (restWorkers p) + length (running p) + length (results p) + length (errors p)
        = length keys"
    unfolding pool_inv_def by blast
  from assms(1,2) have e: "restWorkers p = []" "running p = []"
    unfolding pool_inv_def by blast+
  from i1 e have c: "length keys \<le> length (errors p) + length (results p)" by simp
  show ?thesis
  proof (cases ev)
    case (WorkerSettles w)
    with assms(3) e show ?thesis by (simp add: step_def)
  next
    case RunProcessNext
    with assms(3) have "p' = processNext (length keys) (p\<lparr>queued := queued p - 1\<rparr>)"
      by (auto simp: step_def split: if_splits)
    with e c assms(2) show ?thesis
      by (simp add: processNext_def settle_def)
  qed
qed

lemma batch_settled_for_good:
  "pool_inv work keys cap p \<Longrightarrow> batch p = Some r \<Longrightarrow> run work (length keys) evs p = Some p' \<Longrightarrow>
   batch p' = Some r \<and> errors p' = errors p \<and> results p' = results p"
proof (induction evs arbitrary: p)
  case Nil
  then show ?case by simp
next
  case (Cons ev evs)
  then obtain p1 where s: "step work (length keys) ev p = Some p1"
    and r: "run work (length keys) evs p1 = Some p'"
    by (auto split: option.splits)
  from batch_settled_step[OF Cons.prems(1,2) s] pool_inv_step[OF Cons.prems(1) s] Cons.IH[OF _ _ r]
  show ?case by simp
qed

lemma batch_settles_at_count:
  assumes "pool_inv work keys cap p"
    "length (errors p) + length (results p) = length keys"
    "step work (length keys) RunProcessNext p = Some p'"
  shows "batch p' = Some (if errors p \<noteq> [] then Rejected (errors p) else Resolved (results p))"
proof -
  from assms(1) have i1:
    "length (restWorkers p) + length (running p) + length (results p) + length (errors p)
        = length keys"
    unfolding pool_inv_def by blast
  with assms(2) have "\<not> 0 < length (restWorkers p)" by linarith
  then have e: "restWorkers p = []" by simp
  from assms(1) have i4: "\<forall>r. batch p = Some r \<longrightarrow>
           r = (if errors p \<noteq> [] then Rejected (errors p) else Resolved (results p))"
    unfolding pool_inv_def by blast
  from assms(3) have "p' = processNext (length keys) (p\<lparr>queued := queued p - 1\<rparr>)"
    by (auto simp: step_def split: if_splits)
  with e assms(2) i4 show ?thesis
    by (cases "batch p") (auto simp: processNext_def settle_def)
qed

lemma batch_settles:
  assumes "fileMap \<noteq> []" "1 \<le> pages"
  shows "\<exists>evs p r. batch_run work fileMap pages evs = Some p \<and> quiescent p \<and> batch p = Some r"
proof -
  obtain evs p where r: "batch_run work fileMap pages evs = Some p" and q: "quiescent p"
    unfolding batch_run_def using run_can_finish by blast
  have inv: "pool_inv work (map fst fileMap) (nat pages) p"
    using r by (rule batch_run_inv)
  from assms have "0 < min (nat pages) (length (map fst fileMap))" by (cases fileMap) auto
  with inv q have "batch p \<noteq> None" by (auto simp: pool_inv_def quiescent_def)
  with r q show ?thesis by auto
qed

text \<open>
  Claim C1, at the input where the code departs from it. With an empty file map, and also
  with a capacity of zero or less, the executor of \<open>convertMany\<close> starts no worker, so
  \<open>processNext\<close> is never called: no event can follow, and the promise that was returned
  stays pending for ever, although the number of settled jobs already equals the number of
  jobs when the map is empty.
\<close>

theorem convertMany_never_settles:
  assumes "fileMap = [] \<or> pages \<le> 0" "batch_run work fileMap pages evs = Some p"
  shows "evs = [] \<and> p = convertMany fileMap pages \<and> batch p = None \<and> quiescent p"
proof -
  from assms(1) have e: "running (convertMany fileMap pages) = []" "queued (convertMany fileMap pages) = 0"
    by (auto simp: convertMany_def)
  from assms(2) have "evs = [] \<and> p = convertMany fileMap pages"
    unfolding batch_run_def using run_stuck[OF e] by blast
  then show ?thesis using assms(1) by (auto simp: convertMany_def quiescent_def)
qed

theorem convertMany_never_settles_witness:
  "(([] :: file_map) = [] \<or> (20 :: int) \<le> 0) \<and>
   batch_run ex_work [] 20 [] = Some (convertMany [] 20) \<and>
   batch (convertMany [] 20) = None \<and> quiescent (convertMany [] 20)"
proof -
  have h: "batch_run ex_work [] 20 [] = Some (convertMany [] 20)"
    by (simp add: batch_run_def)
  show ?thesis
    using h convertMany_never_settles [of "[]" 20 ex_work "[]" "convertMany [] 20"] by simp
qed

text \<open>
  Claim C2. In every state that a batch can reach: when the returned promise is settled, no
  worker waits or runs, \<open>errors\<close> holds exactly the errors of the sources that fail and
  \<open>results\<close> exactly the destinations of the sources that succeed, each of them a file
  that was written; the promise is resolved with \<open>results\<close> when no source fails, and is
  rejected with \<open>errors\<close>, and nothing else, when some source fails. For a file map that
  is not empty and a capacity of at least one, the promise is settled once no worker runs
  and no call of \<open>processNext\<close> is queued.
\<close>

theorem batch_result:
  assumes "batch_run work fileMap pages evs = Some p"
  shows "(\<forall>r. batch p = Some r \<longrightarrow>
            restWorkers p = [] \<and> running p = [] \<and>
            mset (errors p) = mset (failures_of work (map fst fileMap)) \<and>
            mset (results p) = mset (successes_of work (map fst fileMap)) \<and>
            mset (map fst (written p)) = mset (successes_of work (map fst fileMap)) \<and>
            (failures_of work (map fst fileMap) = [] \<longrightarrow> r = Resolved (results p)) \<and>
            (failures_of work (map fst fileMap) \<noteq> [] \<longrightarrow> r = Rejected (errors p))) \<and>
         (fileMap \<noteq> [] \<and> 1 \<le> pages \<and> quiescent p \<longrightarrow> batch p \<noteq> None)"
proof -
  have inv: "pool_inv work (map fst fileMap) (nat pages) p"
    using assms by (rule batch_run_inv)
  have second: "fileMap \<noteq> [] \<and> 1 \<le> pages \<and> quiescent p \<longrightarrow> batch p \<noteq> None"
  proof (intro impI notI)
    assume a: "fileMap \<noteq> [] \<and> 1 \<le> pages \<and> quiescent p" and n: "batch p = None"
    then have "0 < min (nat pages) (length (map fst fileMap))" by (cases fileMap) auto
    with inv n have "0 < length (running p) + queued p" by (simp add: pool_inv_def)
    with a show False by (simp add: quiescent_def)
  qed
  have first: "\<forall>r. batch p = Some r \<longrightarrow>
            restWorkers p = [] \<and> running p = [] \<and>
            mset (errors p) = mset (failures_of work (map fst fileMap)) \<and>
            mset (results p) = mset (successes_of work (map fst fileMap)) \<and>
            mset (map fst (written p)) = mset (successes_of work (map fst fileMap)) \<and>
            (failures_of work (map fst fileMap) = [] \<longrightarrow> r = Resolved (results p)) \<and>
            (failures_of work (map fst fileMap) \<noteq> [] \<longrightarrow> r = Rejected (errors p))"
  proof (intro allI impI)
    fix r assume b: "batch p = Some r"
    with inv have e: "restWorkers p = []" "running p = []"
      and r: "r = (if errors p \<noteq> [] then Rejected (errors p) else Resolved (results p))"
      by (simp_all add: pool_inv_def)
    note o = pool_inv_outcomes[OF inv e]
    have "(errors p = []) = (failures_of work (map fst fileMap) = [])"
      using o(1) by (metis mset_zero_iff)
    with e r o show "restWorkers p = [] \<and> running p = [] \<and>
            mset (errors p) = mset (failures_of work (map fst fileMap)) \<and>
            mset (results p) = mset (successes_of work (map fst fileMap)) \<and>
            mset (map fst (written p)) = mset (successes_of work (map fst fileMap)) \<and>
            (failures_of work (map fst fileMap) = [] \<longrightarrow> r = Resolved (results p)) \<and>
            (failures_of work (map fst fileMap) \<noteq> [] \<longrightarrow> r = Rejected (errors p))"
      by simp
  qed
  from first second show ?thesis by blast
qed

theorem batch_result_witness:
  "batch_run ex_work ex_fileMap 1 ex_schedule = Some ex_final \<and>
   ex_fileMap \<noteq> [] \<and> quiescent ex_final \<and>
   failures_of ex_work (map fst ex_fileMap) \<noteq> [] \<and>
   batch ex_final = Some (Rejected (errors ex_final)) \<and>
   mset (errors ex_final) = mset (failures_of ex_work (map fst ex_fileMap)) \<and>
   mset (map fst (written ex_final)) = mset (successes_of ex_work (map fst ex_fileMap))"
proof -
  have h: "batch_run ex_work ex_fileMap 1 ex_schedule = Some ex_final"
    by code_simp
  have f: "failures_of ex_work (map fst ex_fileMap) \<noteq> []"
    by (simp add: failures_of_def ex_work_def ex_fileMap_def)
  have b: "batch ex_final = Some (Rejected (errors ex_final))"
    by (simp add: ex_final_def)
  have q: "ex_fileMap \<noteq> [] \<and> quiescent ex_final"
    by (simp add: ex_fileMap_def ex_final_def quiescent_def)
  show ?thesis
    using h f b q batch_result [OF h] by simp
qed

text \<open>
  The workers in flight. For a capacity of at least one: the executor starts exactly
  min(capacity, number of jobs) workers; in every state that the batch can reach, the
  workers that run, together with the calls of \<open>processNext\<close> that are queued, are at most
  that many; and the workers started so far exceed that number by no more than the workers
  that have settled and whose call of \<open>processNext\<close> has run, since only such a call
  starts a further worker.
\<close>

theorem pool_bounded:
  assumes "1 \<le> pages" "batch_run work fileMap pages evs = Some p"
  shows "int (length (running (convertMany fileMap pages))) = min pages (int (length fileMap)) \<and>
         int (length (running p)) + int (queued p) \<le> min pages (int (length fileMap)) \<and>
         int (length fileMap - length (restWorkers p)) + int (queued p)
           \<le> min pages (int (length fileMap)) + int (length (results p) + length (errors p))"
proof -
  have inv: "pool_inv work (map fst fileMap) (nat pages) p"
    using assms(2) by (rule batch_run_inv)
  have m: "int (min (nat pages) (length fileMap)) = min pages (int (length fileMap))"
    using assms(1) by linarith
  have "length (running (convertMany fileMap pages)) = min (nat pages) (length fileMap)"
    by (simp add: convertMany_def Let_def min.commute)
  with m have a: "int (length (running (convertMany fileMap pages))) = min pages (int (length fileMap))"
    by simp
  from inv have i1: "length (restWorkers p) + length (running p) + length (results p) + length (errors p) = length fileMap"
    and i2: "length (running p) + queued p \<le> min (nat pages) (length fileMap)"
    by (simp_all add: pool_inv_def)
  from i2 m have b: "int (length (running p)) + int (queued p) \<le> min pages (int (length fileMap))"
    by linarith
  from i1 have "length fileMap - length (restWorkers p) = length (running p) + (length (results p) + length (errors p))"
    by linarith
  with b have c: "int (length fileMap - length (restWorkers p)) + int (queued p)
           \<le> min pages (int (length fileMap)) + int (length (results p) + length (errors p))"
    by linarith
  from a b c show ?thesis by blast
qed

theorem pool_bounded_witness:
  "(1 :: int) \<le> 1 \<and> batch_run ex_work ex_fileMap 1 ex_schedule = Some ex_final \<and>
   int (length (running (convertMany ex_fileMap 1))) = min 1 (int (length ex_fileMap)) \<and>
   int (length (running ex_final)) + int (queued ex_final) \<le> min 1 (int (length ex_fileMap))"
proof -
  have h: "batch_run ex_work ex_fileMap 1 ex_schedule = Some ex_final"
    by code_simp
  show ?thesis
    using h pool_bounded [of 1 ex_work ex_fileMap ex_schedule ex_final] by simp
qed

lemma convert_unreadable:
  "createPage env = None \<Longrightarrow> file_base64 env = Inl e \<Longrightarrow>
   convert env srcPath sz = ([CreatePage, ReadFile srcPath], Inl e)"
  by (simp add: convert_def fileToBase64_Inl)

lemma settled_subset_keys:
  "pool_inv work keys cap p \<Longrightarrow> set (settled p) \<subseteq> set keys"
proof -
  assume "pool_inv work keys cap p"
  then have "mset (restWorkers p) + mset (running p) + mset (settled p) = mset keys"
    unfolding pool_inv_def by blast
  then have "set_mset (mset (settled p)) \<subseteq> set_mset (mset keys)"
    by (metis set_mset_union Un_upper2)
  then show ?thesis by simp
qed

lemma quiescent_all_settled:
  assumes "pool_inv work keys cap p" "quiescent p" "0 < min cap (length keys)"
  shows "restWorkers p = [] \<and> length (settled p) = length keys"
proof -
  from assms(1) have i3: "restWorkers p \<noteq> [] \<longrightarrow> length (running p) + queued p = min cap (length keys)"
    and i7: "mset (restWorkers p) + mset (running p) + mset (settled p) = mset keys"
    unfolding pool_inv_def by blast+
  have r: "restWorkers p = []"
  proof (rule ccontr)
    assume "restWorkers p \<noteq> []"
    with i3 have "length (running p) + queued p = min cap (length keys)" by blast
    moreover from assms(2) have "length (running p) + queued p = 0" by (simp add: quiescent_def)
    ultimately show False using assms(3) by linarith
  qed
  with i7 assms(2) have "mset (settled p) = mset keys" by (simp add: quiescent_def)
  then have "length (settled p) = length keys" by (rule mset_eq_length)
  with r show ?thesis by simp
qed

text \<open>
  Claim C3, at the input where the code departs from it. The workers that run are never
  more than min(capacity, number of jobs), as \<open>pool_bounded\<close> says, but the pages that
  are open are: a job whose file cannot be read settles without closing the page it has
  had created, so the pages of all such jobs stay open together. When no file can be read,
  every job that has settled has left its page open; once nothing more can happen these
  pages are as many as the jobs, which is more than min(capacity, number of jobs) when the
  jobs are more than the capacity.
\<close>

theorem pages_left_open:
  assumes "\<forall>src\<in>set (map fst fileMap). createPage (envs src) = None \<and> isl (file_base64 (envs src))"
    "batch_run (worker envs writeFile fileMap sz) fileMap pages evs = Some p"
  shows "leaked_pages envs sz p = settled p \<and>
         (1 \<le> pages \<and> fileMap \<noteq> [] \<and> quiescent p \<longrightarrow>
            length (leaked_pages envs sz p) = length fileMap) \<and>
         (1 \<le> pages \<and> pages < int (length fileMap) \<and> quiescent p \<longrightarrow>
            min pages (int (length fileMap)) < int (length (leaked_pages envs sz p)))"
proof -
  have inv: "pool_inv (worker envs writeFile fileMap sz) (map fst fileMap) (nat pages) p"
    using assms(2) by (rule batch_run_inv)
  have "leaves_page_open (envs src) src sz" if "src \<in> set (settled p)" for src
  proof -
    from that settled_subset_keys[OF inv] have "src \<in> set (map fst fileMap)" by blast
    with assms(1) obtain e where c: "createPage (envs src) = None" "file_base64 (envs src) = Inl e"
      by (cases "file_base64 (envs src)") auto
    from convert_unreadable[OF c] c(1) show ?thesis by (simp add: leaves_page_open_def)
  qed
  then have a: "leaked_pages envs sz p = settled p"
    by (simp add: leaked_pages_def)
  have b: "length (leaked_pages envs sz p) = length fileMap"
    if "1 \<le> pages \<and> fileMap \<noteq> [] \<and> quiescent p"
  proof -
    from that have "0 < min (nat pages) (length (map fst fileMap))" by (cases fileMap) auto
    from quiescent_all_settled[OF inv _ this] that a show ?thesis by simp
  qed
  have c: "min pages (int (length fileMap)) < int (length (leaked_pages envs sz p))"
    if h: "1 \<le> pages \<and> pages < int (length fileMap) \<and> quiescent p"
  proof -
    from h have "fileMap \<noteq> []" by auto
    with h b have "length (leaked_pages envs sz p) = length fileMap" by blast
    with h show ?thesis by simp
  qed
  from a b c show ?thesis by blast
qed

theorem pages_left_open_witness:
  "createPage ex_env_unreadable = None \<and> isl (file_base64 ex_env_unreadable) \<and>
   batch_run ex_unreadable_work ex_fileMap 1 ex_schedule = Some ex_unreadable_final \<and>
   (1 :: int) \<le> 1 \<and> (1 :: int) < int (length ex_fileMap) \<and> quiescent ex_unreadable_final \<and>
   leaked_pages (\<lambda>srcPath. ex_env_unreadable) \<lparr>width = None, height = None\<rparr> ex_unreadable_final =
     [''in/a.svg'', ''in/b.svg''] \<and>
   min 1 (int (length ex_fileMap)) <
     int (length (leaked_pages (\<lambda>srcPath. ex_env_unreadable) \<lparr>width = None, height = None\<rparr>
       ex_unreadable_final))"
proof -
  have e: "\<forall>src\<in>set (map fst ex_fileMap).
      createPage ex_env_unreadable = None \<and> isl (file_base64 ex_env_unreadable)"
    by (simp add: ex_env_unreadable_def ex_env_def)
  have r: "batch_run ex_unreadable_work ex_fileMap 1 ex_schedule = Some ex_unreadable_final"
    by code_simp
  have r': "batch_run (worker (\<lambda>srcPath. ex_env_unreadable) (\<lambda>dstPath buf. None) ex_fileMap
       \<lparr>width = None, height = None\<rparr>) ex_fileMap 1 ex_schedule = Some ex_unreadable_final"
    using r by (simp add: ex_unreadable_work_def)
  have q: "(1 :: int) \<le> 1 \<and> (1 :: int) < int (length ex_fileMap) \<and> quiescent ex_unreadable_final"
    by (simp add: ex_fileMap_def ex_unreadable_final_def quiescent_def)
  have s: "settled ex_unreadable_final = [''in/a.svg'', ''in/b.svg'']"
    by (simp add: ex_unreadable_final_def)
  note t = pages_left_open [of ex_fileMap "\<lambda>srcPath. ex_env_unreadable" "\<lambda>dstPath buf. None"
      "\<lparr>width = None, height = None\<rparr>" 1 ex_schedule ex_unreadable_final, OF e r']
  from t s have l: "leaked_pages (\<lambda>srcPath. ex_env_unreadable) \<lparr>width = None, height = None\<rparr>
      ex_unreadable_final = [''in/a.svg'', ''in/b.svg'']"
    by simp
  from t q have m: "min 1 (int (length ex_fileMap)) <
     int (length (leaked_pages (\<lambda>srcPath. ex_env_unreadable) \<lparr>width = None, height = None\<rparr>
       ex_unreadable_final))"
    by blast
  have e': "createPage ex_env_unreadable = None \<and> isl (file_base64 ex_env_unreadable)"
    by (simp add: ex_env_unreadable_def ex_env_def)
  from e' r q l m show ?thesis by blast
qed

section \<open>Properties of the directory entry point\<close>

lemma map_of_build_fileMap_aux:
  "map_of (foldl (\<lambda>m f. AList.update (k f) (v f) m) m0 fs) =
   foldl (\<lambda>m f. m(k f \<mapsto> v f)) (map_of m0) fs"
  by (induction fs arbitrary: m0) (simp_all add: update_conv')

lemma distinct_build_fileMap_aux:
  "distinct (map fst m0) \<Longrightarrow> distinct (map fst (foldl (\<lambda>m f. AList.update (k f) (v f) m) m0 fs))"
  by (induction fs arbitrary: m0) (simp_all add: distinct_update)

lemma fold_upd_dom:
  "dom (foldl (\<lambda>m f. m(k f \<mapsto> v f)) m0 fs) = dom m0 \<union> k ` set fs"
  by (induction fs arbitrary: m0) auto

lemma fold_upd_Some:
  "foldl (\<lambda>m f. m(k f \<mapsto> v f)) Map.empty fs x = Some y \<Longrightarrow> \<exists>f\<in>set fs. x = k f \<and> y = v f"
  by (induction fs rule: rev_induct) (auto split: if_splits)

lemma fold_upd_inj:
  "inj_on k (set fs) \<Longrightarrow> f \<in> set fs \<Longrightarrow>
   foldl (\<lambda>m f. m(k f \<mapsto> v f)) Map.empty fs (k f) = Some (v f)"
proof (induction fs rule: rev_induct)
  case Nil
  then show ?case by simp
next
  case (snoc x xs)
  show ?case
  proof (cases "f = x")
    case True
    then show ?thesis by simp
  next
    case False
    with snoc.prems have fx: "f \<in> set xs" "k f \<noteq> k x"
      by (auto simp: inj_on_def)
    from snoc.prems have "inj_on k (set xs)" by (auto simp: inj_on_def)
    with snoc.IH fx show ?thesis by simp
  qed
qed

lemma build_fileMap_props:
  "distinct (map fst (build_fileMap join srcDir dstDir fs))"
  "fst ` set (build_fileMap join srcDir dstDir fs) = join srcDir ` set fs"
  "(x, y) \<in> set (build_fileMap join srcDir dstDir fs) \<Longrightarrow>
     \<exists>f\<in>set fs. x = join srcDir f \<and> y = join dstDir (path_parse_name f @ ''.png'')"
  "inj_on (join srcDir) (set fs) \<Longrightarrow> f \<in> set fs \<Longrightarrow>
     map_of (build_fileMap join srcDir dstDir fs) (join srcDir f) =
       Some (join dstDir (path_parse_name f @ ''.png''))"
proof -
  let ?al = "build_fileMap join srcDir dstDir fs"
  let ?m = "foldl (\<lambda>m f. m(join srcDir f \<mapsto> join dstDir (path_parse_name f @ ''.png''))) Map.empty fs"
  have m: "map_of ?al = ?m"
    unfolding build_fileMap_def by (simp add: map_of_build_fileMap_aux)
  show d: "distinct (map fst ?al)"
    unfolding build_fileMap_def by (rule distinct_build_fileMap_aux) simp
  have "dom (map_of ?al) = join srcDir ` set fs"
    unfolding m by (simp add: fold_upd_dom)
  then show "fst ` set ?al = join srcDir ` set fs"
    by (simp add: dom_map_of_conv_image_fst)
  show "\<exists>f\<in>set fs. x = join srcDir f \<and> y = join dstDir (path_parse_name f @ ''.png'')"
    if "(x, y) \<in> set ?al"
  proof -
    from that d have "map_of ?al x = Some y" by simp
    then show ?thesis unfolding m by (rule fold_upd_Some)
  qed
  show "map_of ?al (join srcDir f) = Some (join dstDir (path_parse_name f @ ''.png''))"
    if "inj_on (join srcDir) (set fs)" "f \<in> set fs"
    unfolding m using that by (rule fold_upd_inj)
qed

lemma SVG_REGEX_test_iff:
  "SVG_REGEX_test file \<longleftrightarrow>
     (\<exists>stem s v g. file = stem @ [CHR ''.'', s, v, g] \<and> (s = CHR ''s'' \<or> s = CHR ''S'') \<and>
        (v = CHR ''v'' \<or> v = CHR ''V'') \<and> (g = CHR ''g'' \<or> g = CHR ''G''))"
proof
  assume "SVG_REGEX_test file"
  then obtain g v s d r where r: "rev file = g # v # s # d # r"
    and c: "d = CHR ''.''" "s = CHR ''s'' \<or> s = CHR ''S''" "v = CHR ''v'' \<or> v = CHR ''V''"
      "g = CHR ''g'' \<or> g = CHR ''G''"
    by (auto simp: SVG_REGEX_test_def split: list.splits)
  from r have "file = rev (g # v # s # d # r)" by (metis rev_rev_ident)
  then have "file = rev r @ [d, s, v, g]" by simp
  with c show "\<exists>stem s v g. file = stem @ [CHR ''.'', s, v, g] \<and> (s = CHR ''s'' \<or> s = CHR ''S'') \<and>
        (v = CHR ''v'' \<or> v = CHR ''V'') \<and> (g = CHR ''g'' \<or> g = CHR ''G'')"
    by blast
next
  assume "\<exists>stem s v g. file = stem @ [CHR ''.'', s, v, g] \<and> (s = CHR ''s'' \<or> s = CHR ''S'') \<and>
        (v = CHR ''v'' \<or> v = CHR ''V'') \<and> (g = CHR ''g'' \<or> g = CHR ''G'')"
  then show "SVG_REGEX_test file"
    by (auto simp: SVG_REGEX_test_def)
qed

lemma path_parse_name_svg:
  assumes "SVG_REGEX_test file" "CHR ''/'' \<notin> set file"
  shows "path_parse_name file = (if length file = 4 then file else take (length file - 4) file)"
proof -
  from assms(1) obtain stem s v g where f: "file = stem @ [CHR ''.'', s, v, g]"
    and c: "s = CHR ''s'' \<or> s = CHR ''S''" "v = CHR ''v'' \<or> v = CHR ''V''"
      "g = CHR ''g'' \<or> g = CHR ''G''"
    unfolding SVG_REGEX_test_iff by blast
  have b: "basename file = file"
  proof -
    have tw: "takeWhile (\<lambda>c. c \<noteq> CHR ''/'') (rev file) = rev file"
      using assms(2) by (auto simp: takeWhile_eq_all_conv)
    show ?thesis unfolding basename_def by (simp only: tw rev_rev_ident)
  qed
  have nd: "s \<noteq> CHR ''.''" "v \<noteq> CHR ''.''" "g \<noteq> CHR ''.''"
    using c by auto
  have ext: "rev (takeWhile (\<lambda>c. c \<noteq> CHR ''.'') (rev file)) = [s, v, g]"
    unfolding f using nd by simp
  have dot: "CHR ''.'' \<in> set file" unfolding f by simp
  have len: "length file = length stem + 4" unfolding f by simp
  have nn: "file \<noteq> ''..''" using len by auto
  have "path_parse_name file =
      (if length file = 4 then file else take (length file - 4) file)"
    unfolding path_parse_name_def b Let_def ext
    using dot nn by (simp add: eval_nat_numeral)
  then show ?thesis .
qed

text \<open>
  Claim C9. When the directory can be listed, \<open>svg2PngDir\<close> calls \<open>svg2PngFiles\<close> with the
  map it has built, and with the size and the number of pages it was given (or their
  defaults). The keys of the map are distinct and are exactly the joined source paths of
  the entries that match \<open>SVG_REGEX\<close>; every pair of the map comes from such an entry
  and holds, as the destination, the destination directory joined with the name of the
  entry without its extension, followed by \<open>.png\<close>; when the join is injective on the
  listing, as it is on the names of one directory, each matching entry is mapped so. An
  entry matches exactly when it ends with a dot and the letters s, v, g, each in either
  case. For such an entry the name without extension is the entry without its last four
  characters, except for an entry of only those four characters (a dot file, which is its
  own name).
\<close>

theorem svg2PngDir_fileMap:
  "svg2PngDir join (Inr files) srcDir dstDir size_arg pages_arg =
     Inr \<lparr>arg_fileMap = build_fileMap join srcDir dstDir (filter SVG_REGEX_test files),
          arg_size = (case size_arg of None \<Rightarrow> \<lparr>width = None, height = None\<rparr> | Some s \<Rightarrow> s),
          arg_pages = (case pages_arg of None \<Rightarrow> 20 | Some n \<Rightarrow> n)\<rparr> \<and>
   distinct (map fst (build_fileMap join srcDir dstDir (filter SVG_REGEX_test files))) \<and>
   fst ` set (build_fileMap join srcDir dstDir (filter SVG_REGEX_test files)) =
     join srcDir ` {f \<in> set files. SVG_REGEX_test f} \<and>
   (\<forall>x y. (x, y) \<in> set (build_fileMap join srcDir dstDir (filter SVG_REGEX_test files)) \<longrightarrow>
      (\<exists>f\<in>set files. SVG_REGEX_test f \<and> x = join srcDir f \<and>
         y = join dstDir (path_parse_name f @ ''.png''))) \<and>
   (inj_on (join srcDir) (set files) \<longrightarrow>
      (\<forall>f\<in>set files. SVG_REGEX_test f \<longrightarrow>
         map_of (build_fileMap join srcDir dstDir (filter SVG_REGEX_test files)) (join srcDir f) =
           Some (join dstDir (path_parse_name f @ ''.png'')))) \<and>
   (\<forall>f. SVG_REGEX_test f \<longleftrightarrow>
      (\<exists>stem s v g. f = stem @ [CHR ''.'', s, v, g] \<and> (s = CHR ''s'' \<or> s = CHR ''S'') \<and>
         (v = CHR ''v'' \<or> v = CHR ''V'') \<and> (g = CHR ''g'' \<or> g = CHR ''G''))) \<and>
   (\<forall>f. SVG_REGEX_test f \<and> CHR ''/'' \<notin> set f \<longrightarrow>
      path_parse_name f = (if length f = 4 then f else take (length f - 4) f))"
proof -
  let ?fs = "filter SVG_REGEX_test files"
  let ?fm = "build_fileMap join srcDir dstDir ?fs"
  have a: "svg2PngDir join (Inr files) srcDir dstDir size_arg pages_arg =
     Inr \<lparr>arg_fileMap = ?fm,
          arg_size = (case size_arg of None \<Rightarrow> \<lparr>width = None, height = None\<rparr> | Some s \<Rightarrow> s),
          arg_pages = (case pages_arg of None \<Rightarrow> 20 | Some n \<Rightarrow> n)\<rparr>"
    by (simp add: svg2PngDir_def PARALLEL_PAGES_def split: option.splits)
  have b: "distinct (map fst ?fm)" by (rule build_fileMap_props(1))
  have c: "fst ` set ?fm = join srcDir ` {f \<in> set files. SVG_REGEX_test f}"
    by (simp add: build_fileMap_props(2))
  have d: "\<forall>x y. (x, y) \<in> set ?fm \<longrightarrow>
      (\<exists>f\<in>set files. SVG_REGEX_test f \<and> x = join srcDir f \<and>
         y = join dstDir (path_parse_name f @ ''.png''))"
    using build_fileMap_props(3) [of _ _ join srcDir dstDir ?fs] by auto
  have e: "inj_on (join srcDir) (set files) \<longrightarrow>
      (\<forall>f\<in>set files. SVG_REGEX_test f \<longrightarrow>
         map_of ?fm (join srcDir f) = Some (join dstDir (path_parse_name f @ ''.png'')))"
  proof (intro impI ballI)
    fix f
    assume i: "inj_on (join srcDir) (set files)" and f: "f \<in> set files" "SVG_REGEX_test f"
    from i have "inj_on (join srcDir) (set ?fs)" by (auto simp: inj_on_def)
    moreover from f have "f \<in> set ?fs" by simp
    ultimately show "map_of ?fm (join srcDir f) = Some (join dstDir (path_parse_name f @ ''.png''))"
      by (rule build_fileMap_props(4))
  qed
  have g: "\<forall>f. SVG_REGEX_test f \<longleftrightarrow>
      (\<exists>stem s v g. f = stem @ [CHR ''.'', s, v, g] \<and> (s = CHR ''s'' \<or> s = CHR ''S'') \<and>
         (v = CHR ''v'' \<or> v = CHR ''V'') \<and> (g = CHR ''g'' \<or> g = CHR ''G''))"
    using SVG_REGEX_test_iff by blast
  have h: "\<forall>f. SVG_REGEX_test f \<and> CHR ''/'' \<notin> set f \<longrightarrow>
      path_parse_name f = (if length f = 4 then f else take (length f - 4) f)"
    using path_parse_name_svg by blast
  from a b c d e g h show ?thesis by (intro conjI)
qed

theorem svg2PngDir_fileMap_witness:
  "svg2PngDir ex_join (Inr ex_files) ''in'' ''out'' None None =
     Inr \<lparr>arg_fileMap = [(''in/a.svg'', ''out/a.png''), (''in/B.SVG'', ''out/B.png'')],
          arg_size = \<lparr>width = None, height = None\<rparr>, arg_pages = 20\<rparr> \<and>
   inj_on (ex_join ''in'') (set ex_files) \<and>
   ''B.SVG'' \<in> set ex_files \<and> SVG_REGEX_test ''B.SVG'' \<and> CHR ''/'' \<notin> set ''B.SVG'' \<and>
   path_parse_name ''B.SVG'' = ''B'' \<and>
   map_of (build_fileMap ex_join ''in'' ''out'' (filter SVG_REGEX_test ex_files)) (ex_join ''in'' ''B.SVG'') =
     Some (ex_join ''out'' (path_parse_name ''B.SVG'' @ ''.png''))"
proof -
  have fm: "build_fileMap ex_join ''in'' ''out'' (filter SVG_REGEX_test ex_files) =
      [(''in/a.svg'', ''out/a.png''), (''in/B.SVG'', ''out/B.png'')]"
    by code_simp
  have i: "inj_on (ex_join ''in'') (set ex_files)"
    by (simp add: inj_on_def ex_join_def)
  have m: "''B.SVG'' \<in> set ex_files" "SVG_REGEX_test ''B.SVG''" "CHR ''/'' \<notin> set ''B.SVG''"
    by (simp_all add: ex_files_def SVG_REGEX_test_def)
  note t = svg2PngDir_fileMap [of ex_join ex_files "''in''" "''out''" None None]
  note t1 = t [THEN conjunct1]
  note t5 = t [THEN conjunct2, THEN conjunct2, THEN conjunct2, THEN conjunct2, THEN conjunct1]
  note t7 = t [THEN conjunct2, THEN conjunct2, THEN conjunct2, THEN conjunct2, THEN conjunct2,
      THEN conjunct2]
  from t1 fm have c: "svg2PngDir ex_join (Inr ex_files) ''in'' ''out'' None None =
     Inr \<lparr>arg_fileMap = [(''in/a.svg'', ''out/a.png''), (''in/B.SVG'', ''out/B.png'')],
          arg_size = \<lparr>width = None, height = None\<rparr>, arg_pages = 20\<rparr>"
    by simp
  from t5 i m have l: "map_of (build_fileMap ex_join ''in'' ''out'' (filter SVG_REGEX_test ex_files))
      (ex_join ''in'' ''B.SVG'') = Some (ex_join ''out'' (path_parse_name ''B.SVG'' @ ''.png''))"
    by blast
  from t7 m have "path_parse_name ''B.SVG'' =
      (if length ''B.SVG'' = 4 then ''B.SVG'' else take (length ''B.SVG'' - 4) ''B.SVG'')"
    by blast
  then have n: "path_parse_name ''B.SVG'' = ''B''" by simp
  from c i m n l show ?thesis by (intro conjI)
qed

end
